theory Spec2Isabelle
  imports Main "HOL-Library.Char_ord" "HOL-Library.List_Lexorder" "HOL-Library.Multiset" "HOL-Library.AList"
begin

section \<open>Python string primitives\<close>

text \<open>
  Python strings are sequences of code points; here a string is a \<open>char list\<close> and a
  \<open>char\<close> stands for a code point below 256. The two characters that an Isabelle
  string literal cannot hold get a name.
\<close>

abbreviation NL :: char where
  "NL \<equiv> CHR 0x0A"

abbreviation BSL :: char where
  "BSL \<equiv> CHR 0x5C"

abbreviation DQ :: char where
  "DQ \<equiv> CHR 0x22"

text \<open>\<^verbatim>\<open>s.startswith(pre)\<close> and \<^verbatim>\<open>s.endswith(suf)\<close>.\<close>

definition startswith :: "string \<Rightarrow> string \<Rightarrow> bool" where
  "startswith s pre = (take (length pre) s = pre)"

definition endswith :: "string \<Rightarrow> string \<Rightarrow> bool" where
  "endswith s suf = (length suf \<le> length s \<and> drop (length s - length suf) s = suf)"

text \<open>\<^verbatim>\<open>sub in s\<close>: \<open>sub\<close> occurs in \<open>s\<close> as a contiguous substring.\<close>

primrec contains :: "string \<Rightarrow> string \<Rightarrow> bool" where
  "contains sub [] = (sub = [])"
| "contains sub (c # cs) = (startswith (c # cs) sub \<or> contains sub cs)"

text \<open>\<^verbatim>\<open>s.split(sep)[0]\<close> for a non-empty separator: the text before the first
  occurrence of \<open>sep\<close>, the whole of \<open>s\<close> when there is none.\<close>

primrec split_head :: "string \<Rightarrow> string \<Rightarrow> string" where
  "split_head sep [] = []"
| "split_head sep (c # cs) = (if startswith (c # cs) sep then [] else c # split_head sep cs)"

text \<open>\<^verbatim>\<open>s.strip(chars)\<close>: the characters satisfying \<open>P\<close> are removed at both ends.\<close>

definition strip_chars :: "(char \<Rightarrow> bool) \<Rightarrow> string \<Rightarrow> string" where
  "strip_chars P s = rev (dropWhile P (rev (dropWhile P s)))"

text \<open>\<^verbatim>\<open>s.strip('"')\<close>.\<close>

definition strip_quotes :: "string \<Rightarrow> string" where
  "strip_quotes s = strip_chars (\<lambda>c. c = DQ) s"

text \<open>\<^verbatim>\<open>str.isspace\<close> on one code point below 256: tab, line feed, vertical tab, form
  feed, carriage return, the four separators 0x1C..0x1F, space, NEL (0x85) and the
  no-break space (0xA0).\<close>

definition is_space :: "char \<Rightarrow> bool" where
  "is_space c = (c \<in> set [CHR 0x09, CHR 0x0A, CHR 0x0B, CHR 0x0C, CHR 0x0D,
      CHR 0x1C, CHR 0x1D, CHR 0x1E, CHR 0x1F, CHR 0x20, CHR 0x85, CHR 0xA0])"

text \<open>\<^verbatim>\<open>s.strip()\<close>.\<close>

definition strip :: "string \<Rightarrow> string" where
  "strip s = strip_chars is_space s"

text \<open>\<^verbatim>\<open>str(n)\<close> for a length: the decimal digits of a natural number.\<close>

fun str_of_nat :: "nat \<Rightarrow> string" where
  "str_of_nat n =
     (if n < 10 then [char_of (48 + n)]
      else str_of_nat (n div 10) @ [char_of (48 + n mod 10)])"

declare str_of_nat.simps [simp del]

section \<open>The two regular expressions of the name resolver\<close>

text \<open>
  \<^verbatim>\<open>re.search(r'<[^>]*>([^<]+)</[^>]*>', s)\<close>. At a start position the match is forced:
  the first class cannot step over a closing angle bracket, so the opening tag ends at
  the first one; the class of group 1 cannot step over an opening angle bracket and
  must be followed by one, so group 1 runs to the next opening bracket and must be
  non-empty; then comes the slash, and the closing tag ends at the first closing bracket
  after it. \<open>html_match_here\<close> is group 1 of the match anchored at the head of its
  argument, \<open>html_search\<close> tries the start positions from the left.
\<close>

definition html_match_here :: "string \<Rightarrow> string option" where
  "html_match_here s =
     (case s of
        [] \<Rightarrow> None
      | c # r \<Rightarrow>
          if c \<noteq> CHR ''<'' then None
          else (case dropWhile (\<lambda>x. x \<noteq> CHR ''>'') r of
                  [] \<Rightarrow> None
                | _ # r2 \<Rightarrow>
                    (let g = takeWhile (\<lambda>x. x \<noteq> CHR ''<'') r2;
                         r3 = dropWhile (\<lambda>x. x \<noteq> CHR ''<'') r2
                     in if g = [] then None
                        else (case r3 of
                                _ # s1 # r4 \<Rightarrow>
                                  if s1 = CHR ''/'' \<and> CHR ''>'' \<in> set r4 then Some g else None
                              | _ \<Rightarrow> None))))"

primrec html_search :: "string \<Rightarrow> string option" where
  "html_search [] = None"
| "html_search (c # cs) =
     (case html_match_here (c # cs) of Some g \<Rightarrow> Some g | None \<Rightarrow> html_search cs)"

text \<open>
  \<^verbatim>\<open>re.search(r'[a-zA-Z_][a-zA-Z0-9_]*', s)\<close>: the match starts at the first letter or
  underscore and, the star being greedy, takes every following letter, digit and
  underscore.
\<close>

definition is_ident_start :: "char \<Rightarrow> bool" where
  "is_ident_start c =
     ((CHR ''a'' \<le> c \<and> c \<le> CHR ''z'') \<or> (CHR ''A'' \<le> c \<and> c \<le> CHR ''Z'') \<or> c = CHR ''_'')"

definition is_ident_char :: "char \<Rightarrow> bool" where
  "is_ident_char c = (is_ident_start c \<or> (CHR ''0'' \<le> c \<and> c \<le> CHR ''9''))"

definition ident_search :: "string \<Rightarrow> string option" where
  "ident_search s =
     (case dropWhile (\<lambda>c. \<not> is_ident_start c) s of
        [] \<Rightarrow> None
      | c # cs \<Rightarrow> Some (c # takeWhile is_ident_char cs))"

section \<open>The graph model handed over by pydot\<close>

text \<open>
  A node carries what \<^verbatim>\<open>get_name()\<close> and \<^verbatim>\<open>get_label()\<close> return (the label may be
  \<^verbatim>\<open>None\<close>), an edge what \<^verbatim>\<open>get_source()\<close> and \<^verbatim>\<open>get_destination()\<close> return; pydot
  keeps the double quotes of a quoted identifier.
\<close>

record node =
  get_name :: string
  get_label :: "string option"

record edge =
  get_source :: string
  get_destination :: string

record graph =
  get_nodes :: "node list"
  get_edges :: "edge list"

section \<open>Name resolution\<close>

text \<open>The two line-break markers of the Dot language, \<^verbatim>\<open>\l\<close> and \<^verbatim>\<open>\n\<close>, each a
  backslash followed by a letter.\<close>

abbreviation mark_l :: string where
  "mark_l \<equiv> [BSL, CHR ''l'']"

abbreviation mark_n :: string where
  "mark_n \<equiv> [BSL, CHR ''n'']"

text \<open>The two \<^verbatim>\<open>split\<close> steps of \<^verbatim>\<open>extract_function_name\<close>, in the source's order.\<close>

definition trim_line_breaks :: "string \<Rightarrow> string" where
  "trim_line_breaks node_label =
     (let l1 = (if contains mark_l node_label then split_head mark_l node_label else node_label)
      in if contains mark_n l1 then split_head mark_n l1 else l1)"

text \<open>
  \<^verbatim>\<open>extract_function_name\<close>. The label branch is entered when the label is truthy
  before and after the quotes are stripped, and every path through it returns; the
  identifier rules are reached only otherwise.
\<close>

definition extract_function_name :: "node \<Rightarrow> string" where
  "extract_function_name node_obj =
     (let node_name = strip_quotes (get_name node_obj);
          node_label = (case get_label node_obj of
                          None \<Rightarrow> None
                        | Some l \<Rightarrow> if l = [] then None else Some (strip_quotes l))
      in case node_label of
           Some (c # cs) \<Rightarrow>
             (let lbl = trim_line_breaks (c # cs)
              in if CHR ''<'' \<in> set lbl \<and> CHR ''>'' \<in> set lbl
                 then (case html_search lbl of Some g \<Rightarrow> g | None \<Rightarrow> lbl)
                 else lbl)
         | _ \<Rightarrow>
             (case ident_search node_name of Some m \<Rightarrow> m | None \<Rightarrow> node_name))"

section \<open>Relationship extraction\<close>

text \<open>\<^verbatim>\<open>create_node_to_function_mapping\<close>: a later node with the same identifier
  overwrites the entry of an earlier one.\<close>

definition create_node_to_function_mapping :: "graph \<Rightarrow> (string \<rightharpoonup> string)" where
  "create_node_to_function_mapping g =
     foldl (\<lambda>m n. m(strip_quotes (get_name n) \<mapsto> extract_function_name n)) Map.empty (get_nodes g)"

text \<open>\<^verbatim>\<open>d.get(k, k)\<close>.\<close>

definition get_or_self :: "(string \<rightharpoonup> string) \<Rightarrow> string \<Rightarrow> string" where
  "get_or_self m k = (case m k of Some v \<Rightarrow> v | None \<Rightarrow> k)"

text \<open>The body of the loop of \<^verbatim>\<open>extract_relationships_from_edges\<close> for one edge.\<close>

definition edge_relationship :: "(string \<rightharpoonup> string) \<Rightarrow> bool \<Rightarrow> edge \<Rightarrow> string" where
  "edge_relationship node_to_function is_icgraph e =
     (let source_id = strip_quotes (get_source e);
          dest_id = strip_quotes (get_destination e);
          source_func = get_or_self node_to_function source_id;
          dest_func = get_or_self node_to_function dest_id
      in if is_icgraph then dest_func @ '' -> '' @ source_func
         else source_func @ '' -> '' @ dest_func)"

text \<open>\<^verbatim>\<open>extract_relationships_from_edges\<close>: a list, one \<^verbatim>\<open>append\<close> per edge.\<close>

definition extract_relationships_from_edges ::
    "graph \<Rightarrow> (string \<rightharpoonup> string) \<Rightarrow> bool \<Rightarrow> string list" where
  "extract_relationships_from_edges g node_to_function is_icgraph =
     map (edge_relationship node_to_function is_icgraph) (get_edges g)"

section \<open>Paths (\<^verbatim>\<open>posixpath\<close>) and text files\<close>

abbreviation SEP :: char where
  "SEP \<equiv> CHR ''/''"

text \<open>\<^verbatim>\<open>os.path.basename\<close>: what follows the last slash.\<close>

definition basename :: "string \<Rightarrow> string" where
  "basename p = rev (takeWhile (\<lambda>c. c \<noteq> SEP) (rev p))"

text \<open>\<^verbatim>\<open>os.path.dirname\<close>: the text up to the last slash, its trailing slashes
  removed unless it consists of slashes only.\<close>

definition dirname :: "string \<Rightarrow> string" where
  "dirname p =
     (let head = rev (dropWhile (\<lambda>c. c \<noteq> SEP) (rev p))
      in if head \<noteq> [] \<and> \<not> list_all (\<lambda>c. c = SEP) head
         then rev (dropWhile (\<lambda>c. c = SEP) (rev head))
         else head)"

text \<open>\<^verbatim>\<open>os.path.splitext(p)[0]\<close>: the last dot of the base name starts the extension,
  provided a character other than a dot comes before it in the base name.\<close>

definition splitext_root :: "string \<Rightarrow> string" where
  "splitext_root p =
     (let b = basename p;
          stem = rev (tl (dropWhile (\<lambda>c. c \<noteq> CHR ''.'') (rev b)))
      in if CHR ''.'' \<in> set b \<and> \<not> list_all (\<lambda>c. c = CHR ''.'') stem
         then take (length p - length b) p @ stem
         else p)"

text \<open>\<^verbatim>\<open>os.path.join(a, b)\<close>.\<close>

definition join :: "string \<Rightarrow> string \<Rightarrow> string" where
  "join a b =
     (if startswith b [SEP] then b
      else if a = [] \<or> endswith a [SEP] then a @ b
      else a @ [SEP] @ b)"

text \<open>\<^verbatim>\<open>str.lower\<close> on code points below 256: the letters A to Z and the capital
  letters of Latin-1 (0xC0 to 0xDE without the multiplication sign) move up by 32.\<close>

definition lower_char :: "char \<Rightarrow> char" where
  "lower_char c =
     (let n = (of_char c :: nat)
      in if (65 \<le> n \<and> n \<le> 90) \<or> (192 \<le> n \<and> n \<le> 222 \<and> n \<noteq> 215)
         then char_of (n + 32) else c)"

definition lower :: "string \<Rightarrow> string" where
  "lower s = map lower_char s"

text \<open>Reading in text mode translates \<^verbatim>\<open>\r\n\<close> and a lone \<^verbatim>\<open>\r\<close> to
  \<^verbatim>\<open>\n\<close> (universal newlines).\<close>

fun universal_newlines :: "string \<Rightarrow> string" where
  "universal_newlines [] = []"
| "universal_newlines (c # cs) =
     (if c = CHR 0x0D
      then (case cs of
              [] \<Rightarrow> [NL]
            | d # ds \<Rightarrow> if d = NL then NL # universal_newlines ds else NL # universal_newlines cs)
      else c # universal_newlines cs)"

text \<open>\<^verbatim>\<open>for line in f\<close>: the lines of a text, each with its terminating line feed
  (the last one may have none).\<close>

fun file_lines :: "string \<Rightarrow> string list" where
  "file_lines [] = []"
| "file_lines (c # cs) =
     (if c = NL then [NL] # file_lines cs
      else (case file_lines cs of [] \<Rightarrow> [[c]] | l # ls \<Rightarrow> (c # l) # ls))"

section \<open>The file system\<close>

text \<open>
  A tree of named entries; a directory lists each of its names once. Relative and
  absolute paths are resolved from the one root, and there are no links, no
  permissions and no \<^verbatim>\<open>..\<close>: what can fail is a path that does not lead to an entry
  of the expected kind.
\<close>

datatype entry = File string | Dir "(string \<times> entry) list"

text \<open>\<^verbatim>\<open>s.split(c)\<close>.\<close>

primrec split_on :: "char \<Rightarrow> string \<Rightarrow> string list" where
  "split_on c [] = [[]]"
| "split_on c (x # xs) =
     (if x = c then [] # split_on c xs
      else (case split_on c xs of [] \<Rightarrow> [[x]] | w # ws \<Rightarrow> (x # w) # ws))"

definition path_parts :: "string \<Rightarrow> string list" where
  "path_parts p = filter (\<lambda>w. w \<noteq> [] \<and> w \<noteq> ''.'') (split_on SEP p)"

fun lookup :: "entry \<Rightarrow> string list \<Rightarrow> entry option" where
  "lookup e [] = Some e"
| "lookup (File c) (n # ns) = None"
| "lookup (Dir es) (n # ns) = (case map_of es n of None \<Rightarrow> None | Some e \<Rightarrow> lookup e ns)"

text \<open>The entry a path string leads to: none for the empty path, and none for a file
  named with a trailing slash.\<close>

definition resolve :: "entry \<Rightarrow> string \<Rightarrow> entry option" where
  "resolve fs p =
     (if p = [] then None
      else (case lookup fs (path_parts p) of
              Some (File c) \<Rightarrow> if endswith p [SEP] then None else Some (File c)
            | r \<Rightarrow> r))"

definition isdir :: "entry \<Rightarrow> string \<Rightarrow> bool" where
  "isdir fs p = (case resolve fs p of Some (Dir es) \<Rightarrow> True | _ \<Rightarrow> False)"

definition isfile :: "entry \<Rightarrow> string \<Rightarrow> bool" where
  "isfile fs p = (case resolve fs p of Some (File c) \<Rightarrow> True | _ \<Rightarrow> False)"

definition exists :: "entry \<Rightarrow> string \<Rightarrow> bool" where
  "exists fs p = (resolve fs p \<noteq> None)"

text \<open>\<^verbatim>\<open>open(p, 'r')\<close> and reading: the text of a file, with universal newlines;
  \<open>None\<close> stands for the exception raised when \<open>p\<close> is not a file.\<close>

definition read_text :: "entry \<Rightarrow> string \<Rightarrow> string option" where
  "read_text fs p =
     (case resolve fs p of Some (File c) \<Rightarrow> Some (universal_newlines c) | _ \<Rightarrow> None)"

text \<open>Replacing or creating the file at the end of a path whose directories exist.\<close>

fun store :: "entry \<Rightarrow> string list \<Rightarrow> string \<Rightarrow> entry option" where
  "store e [] v = None"
| "store (File c) (n # ns) v = None"
| "store (Dir es) [n] v =
     (case map_of es n of
        Some (Dir d) \<Rightarrow> None
      | _ \<Rightarrow> Some (Dir (AList.update n (File v) es)))"
| "store (Dir es) (n # m # ns) v =
     (case map_of es n of
        None \<Rightarrow> None
      | Some e \<Rightarrow>
          (case store e (m # ns) v of
             None \<Rightarrow> None
           | Some e' \<Rightarrow> Some (Dir (AList.update n e' es))))"

text \<open>\<^verbatim>\<open>open(p, 'w')\<close>, the writes and the close: the file system with the text at
  \<open>p\<close>; \<open>None\<close> stands for the exception raised when \<open>p\<close> cannot be opened.\<close>

definition write_text :: "entry \<Rightarrow> string \<Rightarrow> string \<Rightarrow> entry option" where
  "write_text fs p v =
     (if p = [] \<or> endswith p [SEP] then None else store fs (path_parts p) v)"

text \<open>\<^verbatim>\<open>os.walk(top)\<close>, top down: for every directory its path, and the names of its
  files; the path of a subdirectory is \<^verbatim>\<open>join(top, name)\<close>. Nothing is produced
  when the path is not a directory.\<close>

fun walk_entry :: "string \<Rightarrow> entry \<Rightarrow> (string \<times> string list) list" where
  "walk_entry root (File c) = []"
| "walk_entry root (Dir es) =
     (root, map fst (filter (\<lambda>ne. case snd ne of File c \<Rightarrow> True | Dir d \<Rightarrow> False) es))
       # concat (map (\<lambda>ne. walk_entry (join root (fst ne)) (snd ne)) es)"

definition walk :: "entry \<Rightarrow> string \<Rightarrow> (string \<times> string list) list" where
  "walk fs d = (case resolve fs d of Some e \<Rightarrow> walk_entry d e | None \<Rightarrow> [])"

section \<open>The per-file artifact\<close>

text \<open>\<^verbatim>\<open>get_output_directory\<close>.\<close>

definition get_output_directory :: "string \<Rightarrow> string" where
  "get_output_directory dot_file_path =
     (let dir_path = dirname dot_file_path;
          dir_name = basename dir_path
      in if dir_name = ''dot_files'' then dirname dir_path else dir_path)"

text \<open>What the \<^verbatim>\<open>f.write\<close> calls of \<^verbatim>\<open>write_relationships_to_file\<close> put into the
  file, in their order.\<close>

definition relationships_text :: "string list \<Rightarrow> string \<Rightarrow> bool \<Rightarrow> string" where
  "relationships_text relationships dot_file_path is_icgraph =
     ''# Function call relationships from '' @ basename dot_file_path @ [NL]
     @ ''# Total relationships: '' @ str_of_nat (length relationships) @ [NL]
     @ (if is_icgraph then ''# Format: callee -> caller'' @ [NL, NL]
        else ''# Format: caller -> callee'' @ [NL, NL])
     @ concat (map (\<lambda>relationship. relationship @ [NL]) (sort relationships))"

text \<open>\<^verbatim>\<open>write_relationships_to_file\<close>; \<open>None\<close> is the exception of \<^verbatim>\<open>open\<close>.\<close>

definition write_relationships_to_file ::
    "entry \<Rightarrow> string \<Rightarrow> string list \<Rightarrow> string \<Rightarrow> bool \<Rightarrow> entry option" where
  "write_relationships_to_file fs output_path relationships dot_file_path is_icgraph =
     write_text fs output_path (relationships_text relationships dot_file_path is_icgraph)"

text \<open>\<^verbatim>\<open>generate_function_relationships_text\<close>: the path of the artifact and the new
  file system, or \<open>None\<close> and the file system as it was when the exception handler
  ran.\<close>

definition generate_function_relationships_text ::
    "entry \<Rightarrow> graph \<Rightarrow> string \<Rightarrow> string option \<times> entry" where
  "generate_function_relationships_text fs g dot_file_path =
     (let output_dir = get_output_directory dot_file_path;
          filename = basename (splitext_root dot_file_path) @ ''_relationships.txt'';
          output_path = join output_dir filename;
          node_to_function = create_node_to_function_mapping g;
          is_icgraph = contains ''_icgraph'' dot_file_path;
          relationships = extract_relationships_from_edges g node_to_function is_icgraph
      in case write_relationships_to_file fs output_path relationships dot_file_path is_icgraph of
           None \<Rightarrow> (None, fs)
         | Some fs' \<Rightarrow> (Some output_path, fs'))"

section \<open>The combined artifact of a directory\<close>

text \<open>\<^verbatim>\<open>find_dot_files\<close>: the \<^verbatim>\<open>dot_files\<close> subdirectory alone when there is one
  (\<^verbatim>\<open>os.listdir\<close>), the whole tree otherwise (\<^verbatim>\<open>os.walk\<close>).\<close>

definition find_dot_files :: "entry \<Rightarrow> string \<Rightarrow> string list" where
  "find_dot_files fs directory =
     (let dot_files_subdir = join directory ''dot_files''
      in case resolve fs dot_files_subdir of
           Some (Dir es) \<Rightarrow>
             map (join dot_files_subdir) (filter (\<lambda>file. endswith file ''.dot'') (map fst es))
         | _ \<Rightarrow>
             concat (map (\<lambda>(root, files).
                map (join root) (filter (\<lambda>file. endswith file ''.dot'') files))
               (walk fs directory)))"

text \<open>\<^verbatim>\<open>find_relationship_files\<close>.\<close>

definition find_relationship_files :: "entry \<Rightarrow> string list \<Rightarrow> string list" where
  "find_relationship_files fs dot_files =
     concat (map (\<lambda>dot_file.
        (let rel_dir = get_output_directory dot_file;
             dot_basename = basename (splitext_root dot_file);
             rel_filename = dot_basename @ ''_relationships.txt'';
             rel_filepath = join rel_dir rel_filename
         in if exists fs rel_filepath then [rel_filepath] else [])) dot_files)"

text \<open>The reading loop shared by \<^verbatim>\<open>collect_unique_relationships\<close> and
  \<^verbatim>\<open>read_relationships_from_file\<close>: comment lines and blank lines are skipped, the
  other lines are stripped.\<close>

definition relationship_lines :: "string \<Rightarrow> string list" where
  "relationship_lines text =
     map strip (filter (\<lambda>line. \<not> (startswith line ''#'' \<or> strip line = [])) (file_lines text))"

text \<open>\<^verbatim>\<open>collect_unique_relationships\<close>: a Python set; \<open>None\<close> when a file cannot be
  opened.\<close>

fun collect_unique_from :: "entry \<Rightarrow> string set \<Rightarrow> string list \<Rightarrow> string set option" where
  "collect_unique_from fs all_relationships [] = Some all_relationships"
| "collect_unique_from fs all_relationships (rel_file # rest) =
     (case read_text fs rel_file of
        None \<Rightarrow> None
      | Some text \<Rightarrow>
          collect_unique_from fs (all_relationships \<union> set (relationship_lines text)) rest)"

definition collect_unique_relationships :: "entry \<Rightarrow> string list \<Rightarrow> string set option" where
  "collect_unique_relationships fs rel_files = collect_unique_from fs {} rel_files"

text \<open>\<^verbatim>\<open>get_output_dir_for_combined_file\<close>.\<close>

definition get_output_dir_for_combined_file :: "string \<Rightarrow> string" where
  "get_output_dir_for_combined_file directory =
     (if basename directory = ''dot_files'' then dirname directory else directory)"

text \<open>What \<^verbatim>\<open>generate_combined_relationships_file\<close> writes.\<close>

definition combined_text :: "string \<Rightarrow> string set \<Rightarrow> bool \<Rightarrow> string" where
  "combined_text output_dir all_relationships is_callee_caller =
     ''# Combined function call relationships from all dot files in '' @ basename output_dir @ [NL]
     @ ''# Total unique relationships: '' @ str_of_nat (card all_relationships) @ [NL]
     @ (if is_callee_caller then ''# Format: callee -> caller'' @ [NL, NL]
        else ''# Format: caller -> callee'' @ [NL, NL])
     @ concat (map (\<lambda>relationship. relationship @ [NL]) (sorted_list_of_set all_relationships))"

text \<open>\<^verbatim>\<open>generate_combined_relationships_file\<close>.\<close>

definition generate_combined_relationships_file ::
    "entry \<Rightarrow> string \<Rightarrow> string list \<Rightarrow> string option \<times> entry" where
  "generate_combined_relationships_file fs directory dot_files =
     (let is_callee_caller = contains ''callee_caller'' (lower (basename directory));
          output_dir = get_output_dir_for_combined_file directory;
          output_path = join output_dir ''all_function_relationships.txt'';
          rel_files = find_relationship_files fs dot_files
      in case collect_unique_relationships fs rel_files of
           None \<Rightarrow> (None, fs)
         | Some all_relationships \<Rightarrow>
             (case write_text fs output_path
                     (combined_text output_dir all_relationships is_callee_caller) of
                None \<Rightarrow> (None, fs)
              | Some fs' \<Rightarrow> (Some output_path, fs')))"

section \<open>The master artifact\<close>

text \<open>A \<^verbatim>\<open>Dict[str, bool]\<close> keeps its keys in insertion order; assigning to a key
  that is present leaves it in place, which is what \<open>AList.update\<close> does.\<close>

type_synonym rel_dict = "(string \<times> bool) list"

text \<open>\<^verbatim>\<open>read_relationships_from_file\<close>.\<close>

definition read_relationships_from_file :: "entry \<Rightarrow> string \<Rightarrow> rel_dict" where
  "read_relationships_from_file fs file_path =
     (if isfile fs file_path
      then (case read_text fs file_path of
              None \<Rightarrow> []
            | Some text \<Rightarrow>
                foldl (\<lambda>relationships relationship. AList.update relationship True relationships)
                  [] (relationship_lines text))
      else [])"

text \<open>\<^verbatim>\<open>relationships.update(file_relationships)\<close>.\<close>

definition dict_update :: "rel_dict \<Rightarrow> rel_dict \<Rightarrow> rel_dict" where
  "dict_update relationships other = foldl (\<lambda>d kv. AList.update (fst kv) (snd kv) d) relationships other"

text \<open>\<^verbatim>\<open>collect_relationships_from_directory\<close>.\<close>

definition collect_relationships_from_directory :: "entry \<Rightarrow> string \<Rightarrow> rel_dict" where
  "collect_relationships_from_directory fs directory =
     foldl (\<lambda>relationships (root, files).
        foldl (\<lambda>relationships file.
           if endswith file ''_relationships.txt'' \<and> file \<noteq> ''all_function_relationships.txt''
           then dict_update relationships (read_relationships_from_file fs (join root file))
           else relationships) relationships files)
       [] (walk fs directory)"

abbreviation banner :: string where
  "banner \<equiv> ''# =========================================================='' @ [NL]"

text \<open>What \<^verbatim>\<open>write_master_relationships_file\<close> writes.\<close>

definition master_text :: "string \<Rightarrow> rel_dict \<Rightarrow> rel_dict \<Rightarrow> string" where
  "master_text base_directory callee_caller_relationships caller_callee_relationships =
     ''# MASTER FUNCTION RELATIONSHIP FILE'' @ [NL]
     @ ''# Generated on: '' @ basename base_directory @ [NL, NL]
     @ banner
     @ ''# CALLEE -> CALLER RELATIONSHIPS'' @ [NL]
     @ ''# Total: '' @ str_of_nat (length callee_caller_relationships) @ [NL]
     @ banner @ [NL]
     @ concat (map (\<lambda>relationship. relationship @ [NL]) (sort (map fst callee_caller_relationships)))
     @ [NL, NL] @ banner
     @ ''# CALLER -> CALLEE RELATIONSHIPS'' @ [NL]
     @ ''# Total: '' @ str_of_nat (length caller_callee_relationships) @ [NL]
     @ banner @ [NL]
     @ concat (map (\<lambda>relationship. relationship @ [NL]) (sort (map fst caller_callee_relationships)))
     @ [NL, NL] @ banner
     @ ''# STATISTICS'' @ [NL]
     @ banner
     @ ''# Total callee->caller relationships: ''
         @ str_of_nat (length callee_caller_relationships) @ [NL]
     @ ''# Total caller->callee relationships: ''
         @ str_of_nat (length caller_callee_relationships) @ [NL]
     @ ''# Total relationships: ''
         @ str_of_nat (length callee_caller_relationships + length caller_callee_relationships) @ [NL]"

definition write_master_relationships_file ::
    "entry \<Rightarrow> string \<Rightarrow> string \<Rightarrow> rel_dict \<Rightarrow> rel_dict \<Rightarrow> entry option" where
  "write_master_relationships_file fs output_path base_directory
       callee_caller_relationships caller_callee_relationships =
     write_text fs output_path
       (master_text base_directory callee_caller_relationships caller_callee_relationships)"

text \<open>The two ways \<^verbatim>\<open>generate_master_relationships_file\<close> returns \<^verbatim>\<open>None\<close>: no
  category directory (its own message), and the exception handler.\<close>

datatype error = NoCategoryDirectoriesError | IOError

text \<open>\<^verbatim>\<open>generate_master_relationships_file\<close>.\<close>

definition generate_master_relationships_file ::
    "entry \<Rightarrow> string \<Rightarrow> (error + string) \<times> entry" where
  "generate_master_relationships_file fs base_directory =
     (let parent_directory = dirname base_directory;
          output_path = join parent_directory ''master_function_relationships.txt'';
          callee_caller_dir = join base_directory ''callee_caller_graph'';
          caller_callee_dir = join base_directory ''caller_callee_graph'';
          callee_caller_exists = isdir fs callee_caller_dir;
          caller_callee_exists = isdir fs caller_callee_dir
      in if \<not> callee_caller_exists \<and> \<not> caller_callee_exists
         then (Inl NoCategoryDirectoriesError, fs)
         else
           (let callee_caller_combined = join callee_caller_dir ''all_function_relationships.txt'';
                caller_callee_combined = join caller_callee_dir ''all_function_relationships.txt'';
                callee_caller_relationships =
                  (if callee_caller_exists \<and> isfile fs callee_caller_combined
                   then read_relationships_from_file fs callee_caller_combined
                   else if callee_caller_exists
                   then collect_relationships_from_directory fs callee_caller_dir
                   else []);
                caller_callee_relationships =
                  (if caller_callee_exists \<and> isfile fs caller_callee_combined
                   then read_relationships_from_file fs caller_callee_combined
                   else if caller_callee_exists
                   then collect_relationships_from_directory fs caller_callee_dir
                   else [])
            in case write_master_relationships_file fs output_path base_directory
                      callee_caller_relationships caller_callee_relationships of
                 None \<Rightarrow> (Inl IOError, fs)
               | Some fs' \<Rightarrow> (Inr output_path, fs')))"

section \<open>Notions of the specification\<close>

text \<open>The name of an identifier in a graph, in the specification's words: the resolved
  name of the node with that identifier (of the last one, should several nodes carry
  it), the identifier itself when no node does.\<close>

definition resolved :: "graph \<Rightarrow> string \<Rightarrow> string" where
  "resolved g ident =
     (let ns = filter (\<lambda>n. strip_quotes (get_name n) = ident) (get_nodes g)
      in if ns = [] then ident else extract_function_name (last ns))"

text \<open>The label up to the leftmost position at which either line-break marker
  starts, in the specification's words.\<close>

primrec first_line :: "string \<Rightarrow> string" where
  "first_line [] = []"
| "first_line (c # cs) =
     (if startswith (c # cs) mark_l \<or> startswith (c # cs) mark_n then [] else c # first_line cs)"

text \<open>The exact set union of the relationship sets of the artifacts in a list, in the
  specification's words; the relationship set of an artifact is what the reading loop
  finds in it.\<close>

definition located_relationships :: "entry \<Rightarrow> string list \<Rightarrow> string set" where
  "located_relationships fs rel_files =
     (\<Union>f\<in>set rel_files. case read_text fs f of Some t \<Rightarrow> set (relationship_lines t) | None \<Rightarrow> {})"

text \<open>The relationship set of the artifact at a path (empty when there is no file).\<close>

definition artifact_relationships :: "entry \<Rightarrow> string \<Rightarrow> string set" where
  "artifact_relationships fs p =
     (case read_text fs p of Some t \<Rightarrow> set (relationship_lines t) | None \<Rightarrow> {})"

text \<open>A name as a directory lists it: not empty, not the dot, without a slash.\<close>

definition simple_name :: "string \<Rightarrow> bool" where
  "simple_name n = (n \<noteq> [] \<and> n \<noteq> ''.'' \<and> SEP \<notin> set n)"

text \<open>A file system all of whose names are such names.\<close>

fun simple_names :: "entry \<Rightarrow> bool" where
  "simple_names (File c) = True"
| "simple_names (Dir es) = list_all (\<lambda>ne. simple_name (fst ne) \<and> simple_names (snd ne)) es"

text \<open>The name of a per-file artifact: the fixed suffix, the combined artifact excluded.\<close>

definition per_file_artifact_name :: "string \<Rightarrow> bool" where
  "per_file_artifact_name file =
     (endswith file ''_relationships.txt'' \<and> file \<noteq> ''all_function_relationships.txt'')"

text \<open>The union of the per-file artifacts beneath a directory, in the specification's
  words and without reference to the walk of the code: whatever a per-file artifact
  holds that is reached from the directory through any number of subdirectory names.\<close>

definition relationships_beneath :: "entry \<Rightarrow> string \<Rightarrow> string set" where
  "relationships_beneath fs directory =
     {r. \<exists>names file. list_all simple_name names \<and> simple_name file
           \<and> per_file_artifact_name file
           \<and> r \<in> artifact_relationships fs (foldl join directory (names @ [file]))}"

text \<open>The relationships of a category, in the specification's words: those of its
  combined artifact when the directory has one, the union of the per-file artifacts
  beneath it otherwise, none when the directory is absent.\<close>

definition category_relationships :: "entry \<Rightarrow> string \<Rightarrow> string set" where
  "category_relationships fs category_dir =
     (if isdir fs category_dir
      then (if isfile fs (join category_dir ''all_function_relationships.txt'')
            then artifact_relationships fs (join category_dir ''all_function_relationships.txt'')
            else relationships_beneath fs category_dir)
      else {})"

text \<open>What the walk of \<^verbatim>\<open>collect_relationships_from_directory\<close> gathers, as a set.\<close>

definition relationships_under :: "entry \<Rightarrow> string \<Rightarrow> string set" where
  "relationships_under fs directory =
     (\<Union>(root, files)\<in>set (walk fs directory).
        \<Union>file\<in>set (filter (\<lambda>file. endswith file ''_relationships.txt''
                                  \<and> file \<noteq> ''all_function_relationships.txt'') files).
          artifact_relationships fs (join root file))"

section \<open>Concrete file systems\<close>

text \<open>A directory with one dot file, its artifact, and the artifact of a dot file that
  is no longer there.\<close>

definition orphan_fs :: entry where
  "orphan_fs =
     Dir [(''d'', Dir [(''dot_files'', Dir [(''a_cgraph.dot'', File ''digraph {}'')]),
                      (''a_cgraph_relationships.txt'',
                         File (''# Total relationships: 1'' @ [NL, NL] @ ''x -> y'' @ [NL])),
                      (''old_cgraph_relationships.txt'',
                         File (''# Total relationships: 1'' @ [NL, NL] @ ''u -> v'' @ [NL]))])]"

text \<open>One artifact, and two empty directories whose names differ.\<close>

definition renamed_fs :: entry where
  "renamed_fs =
     Dir [(''data'', Dir [(''f_relationships.txt'', File (''p -> q'' @ [NL]))]),
          (''callee_caller_graph'', Dir []),
          (''caller_callee_graph'', Dir [])]"

text \<open>Two artifacts that hold the same relationship.\<close>

definition scenario_c_fs :: entry where
  "scenario_c_fs =
     Dir [(''g'', Dir [(''a_relationships.txt'', File (''# one'' @ [NL, NL] @ ''x -> y'' @ [NL])),
                      (''b_relationships.txt'', File (''# two'' @ [NL, NL] @ ''x -> y'' @ [NL]))])]"

text \<open>A project with the Forward category directory only and no combined artifact:
  one per-file artifact in the directory, one two levels further down.\<close>

definition scenario_d_fs :: entry where
  "scenario_d_fs =
     Dir [(''proj'', Dir [(''caller_callee_graph'',
        Dir [(''f_cgraph_relationships.txt'',
                File (''# Total relationships: 2'' @ [NL, NL] @ ''a -> b'' @ [NL] @ ''a -> c'' @ [NL])),
             (''more'', Dir [(''deeper'', Dir [(''g_cgraph_relationships.txt'',
                File (''# Total relationships: 2'' @ [NL, NL] @ ''a -> b'' @ [NL] @ ''d -> e'' @ [NL]))])])])])]"


section \<open>Properties of name resolution\<close>

lemma mapping_lookup:
  "foldl (\<lambda>m n. m(strip_quotes (get_name n) \<mapsto> extract_function_name n)) Map.empty ns k =
     (let hits = filter (\<lambda>n. strip_quotes (get_name n) = k) ns
      in if hits = [] then None else Some (extract_function_name (last hits)))"
proof (induction ns rule: rev_induct)
  case Nil
  show ?case by simp
next
  case (snoc x xs)
  show ?case
  proof (cases "strip_quotes (get_name x) = k")
    case True
    then show ?thesis by simp
  next
    case False
    then show ?thesis using snoc by simp
  qed
qed

lemma get_or_self_mapping:
  "get_or_self (create_node_to_function_mapping g) k = resolved g k"
  by (simp add: get_or_self_def create_node_to_function_mapping_def resolved_def mapping_lookup Let_def)

lemma split_head_none: "\<not> contains sep s \<Longrightarrow> split_head sep s = s"
  by (induction s) auto

lemma split_twice: "split_head mark_n (split_head mark_l s) = first_line s"
proof (induction s)
  case Nil
  show ?case by simp
next
  case (Cons c cs)
  have "startswith (c # split_head mark_l cs) mark_n = startswith (c # cs) mark_n"
    by (cases cs) (auto simp: startswith_def)
  then show ?case using Cons by simp
qed

lemma split_head_if: "(if contains sep s then split_head sep s else s) = split_head sep s"
  by (simp add: split_head_none)

lemma trim_line_breaks_first_line: "trim_line_breaks s = first_line s"
  by (simp only: trim_line_breaks_def Let_def split_head_if split_twice)

lemma html_match_here_tag:
  assumes "CHR ''>'' \<notin> set tag" "CHR ''<'' \<notin> set inner" "inner \<noteq> []" "CHR ''>'' \<notin> set tag2"
  shows "html_match_here (''<'' @ tag @ ''>'' @ inner @ ''</'' @ tag2 @ ''>'' @ post) = Some inner"
proof -
  have d1: "dropWhile (\<lambda>x. x \<noteq> CHR ''>'') (tag @ CHR ''>'' # r) = CHR ''>'' # r" for r
    using assms(1) by (auto simp: dropWhile_append3)
  have t2: "takeWhile (\<lambda>x. x \<noteq> CHR ''<'') (inner @ CHR ''<'' # r) = inner" for r
    using assms(2) by (auto simp: takeWhile_tail)
  have d2: "dropWhile (\<lambda>x. x \<noteq> CHR ''<'') (inner @ CHR ''<'' # r) = CHR ''<'' # r" for r
    using assms(2) by (auto simp: dropWhile_append3)
  show ?thesis
    using assms(3) by (simp add: html_match_here_def d1 t2 d2)
qed

lemma html_search_first_pair:
  assumes "CHR ''<'' \<notin> set pre" "CHR ''>'' \<notin> set tag" "CHR ''<'' \<notin> set inner" "inner \<noteq> []"
    "CHR ''>'' \<notin> set tag2"
  shows "html_search (pre @ ''<'' @ tag @ ''>'' @ inner @ ''</'' @ tag2 @ ''>'' @ post) = Some inner"
  using assms(1)
proof (induction pre)
  case Nil
  have "html_match_here (CHR ''<'' # tag @ ''>'' @ inner @ ''</'' @ tag2 @ ''>'' @ post) = Some inner"
    using html_match_here_tag [OF assms(2-5), of post] by simp
  then show ?case by simp
next
  case (Cons c pre)
  then have "html_match_here (c # pre @ ''<'' @ tag @ ''>'' @ inner @ ''</'' @ tag2 @ ''>'' @ post) = None"
    by (auto simp: html_match_here_def)
  then show ?case using Cons by simp
qed


text \<open>
  Claim C2. Under Forward polarity the relationship of an edge is the resolved source,
  the arrow, the resolved destination; under Inverted polarity the two names change
  places. An edge from \<open>a\<close> to \<open>b\<close> between unlabelled nodes of these names gives
  \<open>a -> b\<close> and \<open>b -> a\<close>.
\<close>

theorem relationship_direction:
  "extract_relationships_from_edges g (create_node_to_function_mapping g) False =
     map (\<lambda>e. resolved g (strip_quotes (get_source e)) @ '' -> ''
                @ resolved g (strip_quotes (get_destination e))) (get_edges g)
   \<and> extract_relationships_from_edges g (create_node_to_function_mapping g) True =
     map (\<lambda>e. resolved g (strip_quotes (get_destination e)) @ '' -> ''
                @ resolved g (strip_quotes (get_source e))) (get_edges g)
   \<and> extract_relationships_from_edges
       \<lparr>get_nodes = [\<lparr>get_name = ''a'', get_label = None\<rparr>, \<lparr>get_name = ''b'', get_label = None\<rparr>],
        get_edges = [\<lparr>get_source = ''a'', get_destination = ''b''\<rparr>]\<rparr>
       (create_node_to_function_mapping
         \<lparr>get_nodes = [\<lparr>get_name = ''a'', get_label = None\<rparr>, \<lparr>get_name = ''b'', get_label = None\<rparr>],
          get_edges = [\<lparr>get_source = ''a'', get_destination = ''b''\<rparr>]\<rparr>) False = [''a -> b'']
   \<and> extract_relationships_from_edges
       \<lparr>get_nodes = [\<lparr>get_name = ''a'', get_label = None\<rparr>, \<lparr>get_name = ''b'', get_label = None\<rparr>],
        get_edges = [\<lparr>get_source = ''a'', get_destination = ''b''\<rparr>]\<rparr>
       (create_node_to_function_mapping
         \<lparr>get_nodes = [\<lparr>get_name = ''a'', get_label = None\<rparr>, \<lparr>get_name = ''b'', get_label = None\<rparr>],
          get_edges = [\<lparr>get_source = ''a'', get_destination = ''b''\<rparr>]\<rparr>) True = [''b -> a'']"
proof -
  have names: "extract_function_name \<lparr>get_name = ''a'', get_label = None\<rparr> = ''a''"
    "extract_function_name \<lparr>get_name = ''b'', get_label = None\<rparr> = ''b''"
    by (simp_all add: extract_function_name_def strip_quotes_def strip_chars_def ident_search_def
        is_ident_start_def is_ident_char_def)
  have q: "strip_quotes ''a'' = ''a''" "strip_quotes ''b'' = ''b''"
    by (simp_all add: strip_quotes_def strip_chars_def)
  have general:
    "extract_relationships_from_edges g (create_node_to_function_mapping g) False =
       map (\<lambda>e. resolved g (strip_quotes (get_source e)) @ '' -> ''
                  @ resolved g (strip_quotes (get_destination e))) (get_edges g)"
    "extract_relationships_from_edges g (create_node_to_function_mapping g) True =
       map (\<lambda>e. resolved g (strip_quotes (get_destination e)) @ '' -> ''
                  @ resolved g (strip_quotes (get_source e))) (get_edges g)" for g
    by (simp_all add: extract_relationships_from_edges_def edge_relationship_def
        get_or_self_mapping)
  show ?thesis
    unfolding general
    by (simp add: resolved_def names q)
qed

text \<open>The same on a graph whose nodes carry labels, with an edge to an identifier
  that no node declares.\<close>

theorem relationship_direction_witness:
  "extract_relationships_from_edges
     \<lparr>get_nodes = [\<lparr>get_name = ''Node1'', get_label = Some (DQ # ''main'' @ [DQ])\<rparr>,
                  \<lparr>get_name = ''Node2'', get_label = Some (''init'' @ mark_l @ ''x'')\<rparr>],
      get_edges = [\<lparr>get_source = ''Node1'', get_destination = ''Node2''\<rparr>,
                   \<lparr>get_source = ''Node2'', get_destination = ''Node9''\<rparr>]\<rparr>
     (create_node_to_function_mapping
       \<lparr>get_nodes = [\<lparr>get_name = ''Node1'', get_label = Some (DQ # ''main'' @ [DQ])\<rparr>,
                    \<lparr>get_name = ''Node2'', get_label = Some (''init'' @ mark_l @ ''x'')\<rparr>],
        get_edges = [\<lparr>get_source = ''Node1'', get_destination = ''Node2''\<rparr>,
                     \<lparr>get_source = ''Node2'', get_destination = ''Node9''\<rparr>]\<rparr>) True
   = [''init -> main'', ''Node9 -> init'']"
proof -
  let ?g = "\<lparr>get_nodes = [\<lparr>get_name = ''Node1'', get_label = Some (DQ # ''main'' @ [DQ])\<rparr>,
                  \<lparr>get_name = ''Node2'', get_label = Some (''init'' @ mark_l @ ''x'')\<rparr>],
      get_edges = [\<lparr>get_source = ''Node1'', get_destination = ''Node2''\<rparr>,
                   \<lparr>get_source = ''Node2'', get_destination = ''Node9''\<rparr>]\<rparr>"
  have "extract_relationships_from_edges ?g (create_node_to_function_mapping ?g) True =
     map (\<lambda>e. resolved ?g (strip_quotes (get_destination e)) @ '' -> ''
                @ resolved ?g (strip_quotes (get_source e))) (get_edges ?g)"
    by (rule relationship_direction [THEN conjunct2, THEN conjunct1])
  then show ?thesis
    by (simp add: resolved_def extract_function_name_def strip_quotes_def strip_chars_def
        trim_line_breaks_def startswith_def)
qed

lemma html_match_here_nonempty: "html_match_here s = Some g \<Longrightarrow> g \<noteq> []"
  by (auto simp: html_match_here_def Let_def split: list.splits if_splits)

lemma html_search_nonempty: "html_search s = Some g \<Longrightarrow> g \<noteq> []"
  by (induction s) (auto split: option.splits dest: html_match_here_nonempty)

lemma ident_search_nonempty: "ident_search s = Some m \<Longrightarrow> m \<noteq> []"
  by (auto simp: ident_search_def split: list.splits)

lemma extract_function_name_label:
  assumes "get_label n = Some l" "strip_quotes l \<noteq> []"
  shows "extract_function_name n =
     (let cand = first_line (strip_quotes l)
      in if CHR ''<'' \<in> set cand \<and> CHR ''>'' \<in> set cand
         then (case html_search cand of Some g \<Rightarrow> g | None \<Rightarrow> cand)
         else cand)"
proof -
  from assms(2) obtain c cs where s: "strip_quotes l = c # cs" by (cases "strip_quotes l") auto
  from assms(2) have "l \<noteq> []" by (auto simp: strip_quotes_def strip_chars_def)
  then show ?thesis
    using assms(1) s
    by (simp add: extract_function_name_def trim_line_breaks_first_line Let_def)
qed

lemma extract_function_name_no_label:
  assumes "case get_label n of None \<Rightarrow> True | Some l \<Rightarrow> strip_quotes l = []"
  shows "extract_function_name n =
     (case ident_search (strip_quotes (get_name n)) of
        Some m \<Rightarrow> m
      | None \<Rightarrow> strip_quotes (get_name n))"
proof (cases "get_label n")
  case None
  then show ?thesis by (simp add: extract_function_name_def Let_def)
next
  case (Some l)
  with assms have "strip_quotes l = []" by simp
  with Some show ?thesis by (simp add: extract_function_name_def Let_def)
qed

text \<open>
  Claim C3. The label is cut at the leftmost line-break marker, whichever of the two it
  is (\<open>foo\lbar\<close> and \<open>foo\nbar\<close> resolve to \<open>foo\<close>); a candidate holding both
  markup delimiters is replaced by the first inner text between an opening and a
  closing tag (\<open><tag>inner</tag>\<close> resolves to \<open>inner\<close>); a node without label and
  with identifier \<open>Node42_helper\<close> resolves to \<open>Node42_helper\<close>.
\<close>

theorem name_resolution_chain:
  "trim_line_breaks lbl = first_line lbl
   \<and> extract_function_name \<lparr>get_name = nm, get_label = Some (''foo'' @ mark_l @ ''bar'')\<rparr> = ''foo''
   \<and> extract_function_name \<lparr>get_name = nm, get_label = Some (''foo'' @ mark_n @ ''bar'')\<rparr> = ''foo''
   \<and> (get_label n = Some l \<and> strip_quotes l \<noteq> [] \<longrightarrow>
        extract_function_name n =
          (let cand = first_line (strip_quotes l)
           in if CHR ''<'' \<in> set cand \<and> CHR ''>'' \<in> set cand
              then (case html_search cand of Some g \<Rightarrow> g | None \<Rightarrow> cand)
              else cand))
   \<and> (CHR ''<'' \<notin> set pre \<and> CHR ''>'' \<notin> set tag \<and> CHR ''<'' \<notin> set inner \<and> inner \<noteq> []
        \<and> CHR ''>'' \<notin> set tag2 \<longrightarrow>
        html_search (pre @ ''<'' @ tag @ ''>'' @ inner @ ''</'' @ tag2 @ ''>'' @ post) = Some inner)
   \<and> extract_function_name \<lparr>get_name = nm, get_label = Some ''<tag>inner</tag>''\<rparr> = ''inner''
   \<and> extract_function_name \<lparr>get_name = ''Node42_helper'', get_label = None\<rparr> = ''Node42_helper''"
proof -
  have a: "extract_function_name \<lparr>get_name = nm, get_label = Some (''foo'' @ mark_l @ ''bar'')\<rparr> = ''foo''"
    by (simp add: extract_function_name_def strip_quotes_def strip_chars_def
        trim_line_breaks_def startswith_def)
  have b: "extract_function_name \<lparr>get_name = nm, get_label = Some (''foo'' @ mark_n @ ''bar'')\<rparr> = ''foo''"
    by (simp add: extract_function_name_def strip_quotes_def strip_chars_def
        trim_line_breaks_def startswith_def)
  have c: "extract_function_name \<lparr>get_name = nm, get_label = Some ''<tag>inner</tag>''\<rparr> = ''inner''"
    by (simp add: extract_function_name_def strip_quotes_def strip_chars_def
        trim_line_breaks_def startswith_def html_match_here_def)
  have d: "extract_function_name \<lparr>get_name = ''Node42_helper'', get_label = None\<rparr> = ''Node42_helper''"
    by (simp add: extract_function_name_def strip_quotes_def strip_chars_def ident_search_def
        is_ident_start_def is_ident_char_def)
  show ?thesis
    using a b c d trim_line_breaks_first_line [of lbl] extract_function_name_label [of n l]
      html_search_first_pair [of pre tag inner tag2 post]
    by blast
qed

theorem name_resolution_chain_witness:
  "extract_function_name \<lparr>get_name = ''Node7'', get_label = Some (DQ # ''<b>f</b>'' @ mark_l @ ''x'' @ [DQ])\<rparr> = ''f''
   \<and> html_search ''ab<i x>run</i>z'' = Some ''run''
   \<and> trim_line_breaks (''a'' @ mark_n @ ''b'' @ mark_l @ ''c'') = ''a''"
proof -
  note t = name_resolution_chain [of "''a'' @ mark_n @ ''b'' @ mark_l @ ''c''" "''x''"
      "\<lparr>get_name = ''Node7'', get_label = Some (DQ # ''<b>f</b>'' @ mark_l @ ''x'' @ [DQ])\<rparr>"
      "DQ # ''<b>f</b>'' @ mark_l @ ''x'' @ [DQ]" "''ab''" "''i x''" "''run''" "''i''" "''z''"]
  have "trim_line_breaks (''a'' @ mark_n @ ''b'' @ mark_l @ ''c'') = ''a''"
    using t [THEN conjunct1] by (simp add: startswith_def)
  moreover have "extract_function_name
      \<lparr>get_name = ''Node7'', get_label = Some (DQ # ''<b>f</b>'' @ mark_l @ ''x'' @ [DQ])\<rparr> = ''f''"
    using t [THEN conjunct2, THEN conjunct2, THEN conjunct2, THEN conjunct1]
    by (simp add: strip_quotes_def strip_chars_def startswith_def html_match_here_def)
  moreover have "html_search ''ab<i x>run</i>z'' = Some ''run''"
    using t [THEN conjunct2, THEN conjunct2, THEN conjunct2, THEN conjunct2, THEN conjunct1]
    by simp
  ultimately show ?thesis by simp
qed

text \<open>
  Claim C4, as stated, fails: a node without label whose identifier is the empty quoted
  string resolves to the empty string, the raw identifier being the last resort.
\<close>

theorem empty_identifier_resolves_empty: "extract_function_name \<lparr>get_name = [DQ, DQ], get_label = None\<rparr> = []"
  by (simp add: extract_function_name_def strip_quotes_def strip_chars_def ident_search_def)

text \<open>A label that starts with a line-break marker is trimmed to nothing and returned as
  it is; the identifier rules are not tried.\<close>

lemma leading_line_break_resolves_empty: "extract_function_name \<lparr>get_name = ''Node1'', get_label = Some (mark_l @ ''foo'')\<rparr> = []"
  by (simp add: extract_function_name_def strip_quotes_def strip_chars_def
        trim_line_breaks_def startswith_def)

lemma usable_name_nonempty:
  assumes "case get_label n of
             None \<Rightarrow> strip_quotes (get_name n) \<noteq> []
           | Some l \<Rightarrow> if strip_quotes l = [] then strip_quotes (get_name n) \<noteq> []
                       else trim_line_breaks (strip_quotes l) \<noteq> []"
  shows "extract_function_name n \<noteq> []"
proof (cases "case get_label n of None \<Rightarrow> True | Some l \<Rightarrow> strip_quotes l = []")
  case True
  then have "extract_function_name n =
     (case ident_search (strip_quotes (get_name n)) of
        Some m \<Rightarrow> m | None \<Rightarrow> strip_quotes (get_name n))"
    by (rule extract_function_name_no_label)
  moreover have "strip_quotes (get_name n) \<noteq> []"
    using assms True by (auto split: option.splits if_splits)
  ultimately show ?thesis
    by (auto split: option.splits dest: ident_search_nonempty)
next
  case False
  then obtain l where l: "get_label n = Some l" "strip_quotes l \<noteq> []"
    by (auto split: option.splits)
  with assms have ne: "first_line (strip_quotes l) \<noteq> []"
    by (simp add: trim_line_breaks_first_line)
  show ?thesis
    using extract_function_name_label [OF l] ne
    by (auto simp: Let_def split: option.splits dest: html_search_nonempty)
qed


text \<open>
  Claim C4, amended. Name resolution is total, and it returns a non-empty string
  whenever the node has a usable label (non-empty once its quotes are stripped) whose
  line-break-trimmed text is non-empty, or has no usable label and an identifier that is
  non-empty once its quotes are stripped; in the latter case the later rules of the
  chain fire: identifier extraction, then the raw identifier.
\<close>

theorem extract_function_name_nonempty:
  "((case get_label n of
       None \<Rightarrow> strip_quotes (get_name n) \<noteq> []
     | Some l \<Rightarrow> if strip_quotes l = [] then strip_quotes (get_name n) \<noteq> []
                 else trim_line_breaks (strip_quotes l) \<noteq> [])
      \<longrightarrow> extract_function_name n \<noteq> [])
   \<and> ((case get_label n of None \<Rightarrow> True | Some l \<Rightarrow> strip_quotes l = [])
      \<longrightarrow> extract_function_name n =
            (case ident_search (strip_quotes (get_name n)) of
               Some m \<Rightarrow> m
             | None \<Rightarrow> strip_quotes (get_name n)))"
  using usable_name_nonempty [of n] extract_function_name_no_label [of n] by blast

theorem extract_function_name_nonempty_witness:
  "extract_function_name \<lparr>get_name = ''Node3'', get_label = Some [DQ, DQ]\<rparr> \<noteq> []
   \<and> extract_function_name \<lparr>get_name = ''Node3'', get_label = Some [DQ, DQ]\<rparr> = ''Node3''
   \<and> extract_function_name \<lparr>get_name = ''Node3'', get_label = Some (''run'' @ mark_n @ ''x'')\<rparr> \<noteq> []"
proof -
  have "extract_function_name \<lparr>get_name = ''Node3'', get_label = Some [DQ, DQ]\<rparr> \<noteq> []"
    by (rule extract_function_name_nonempty [THEN conjunct1, THEN mp])
      (simp add: strip_quotes_def strip_chars_def)
  moreover have "extract_function_name \<lparr>get_name = ''Node3'', get_label = Some [DQ, DQ]\<rparr> = ''Node3''"
    using extract_function_name_nonempty [of "\<lparr>get_name = ''Node3'', get_label = Some [DQ, DQ]\<rparr>",
        THEN conjunct2]
    by (simp add: strip_quotes_def strip_chars_def ident_search_def is_ident_start_def
        is_ident_char_def)
  moreover have "extract_function_name
      \<lparr>get_name = ''Node3'', get_label = Some (''run'' @ mark_n @ ''x'')\<rparr> \<noteq> []"
    by (rule extract_function_name_nonempty [THEN conjunct1, THEN mp])
      (simp add: strip_quotes_def strip_chars_def trim_line_breaks_def startswith_def)
  ultimately show ?thesis by simp
qed

section \<open>Properties of the per-file artifact\<close>

lemma digit_not_NL: "k < 10 \<Longrightarrow> char_of (48 + k :: nat) \<noteq> NL"
proof
  assume k: "k < 10" and e: "char_of (48 + k) = NL"
  then have "of_char (char_of (48 + k) :: char) = (of_char NL :: nat)" by simp
  then have "(48 + k) mod 256 = 10" by (simp only: of_char_of) simp
  with k show False by simp
qed

lemma str_of_nat_no_NL: "NL \<notin> set (str_of_nat n)"
proof (induction n rule: str_of_nat.induct)
  case (1 n)
  show ?case
  proof (cases "n < 10")
    case True
    then show ?thesis using digit_not_NL [of n] by (simp add: str_of_nat.simps [of n])
  next
    case False
    have "n mod 10 < 10" by simp
    then have "char_of (48 + n mod 10) \<noteq> NL" by (rule digit_not_NL)
    with False 1 show ?thesis by (simp add: str_of_nat.simps [of n]) 
  qed
qed

lemma file_lines_line: "NL \<notin> set l \<Longrightarrow> file_lines (l @ NL # rest) = (l @ [NL]) # file_lines rest"
  by (induction l) auto

lemma file_lines_concat:
  "\<forall>r\<in>set rs. NL \<notin> set r \<Longrightarrow> file_lines (concat (map (\<lambda>r. r @ [NL]) rs)) = map (\<lambda>r. r @ [NL]) rs"
  by (induction rs) (simp_all add: file_lines_line)

lemma lookup_store: "store e ns v = Some e' \<Longrightarrow> lookup e' ns = Some (File v)"
proof (induction e ns v arbitrary: e' rule: store.induct)
  case (1 e v)
  then show ?case by simp
next
  case (2 c n ns v)
  then show ?case by simp
next
  case (3 es n v)
  then show ?case by (auto simp: update_conv' split: option.splits entry.splits)
next
  case (4 es n m ns v)
  then show ?case by (auto simp: update_conv' split: option.splits)
qed

lemma resolve_write_text: "write_text fs p v = Some fs' \<Longrightarrow> resolve fs' p = Some (File v)"
  by (auto simp: write_text_def resolve_def dest: lookup_store split: if_splits)

lemma split_on_nonempty: "split_on c s \<noteq> []"
  by (induction s) (auto split: list.splits)

lemma split_on_no_sep: "c \<notin> set n \<Longrightarrow> split_on c n = [n]"
  by (induction n) auto

lemma split_on_append_sep: "c \<notin> set n \<Longrightarrow> split_on c (a @ c # n) = split_on c a @ [n]"
proof (induction a)
  case Nil
  then show ?case by (simp add: split_on_no_sep)
next
  case (Cons x a)
  then show ?case
    using split_on_nonempty [of c a] by (cases "split_on c a") auto
qed

lemma path_parts_append_sep:
  "SEP \<notin> set n \<Longrightarrow> path_parts (a @ SEP # n) = path_parts a @ filter (\<lambda>w. w \<noteq> [] \<and> w \<noteq> ''.'') [n]"
  by (simp add: path_parts_def split_on_append_sep)

lemma path_parts_snoc_sep: "path_parts (a @ [SEP]) = path_parts a"
  using path_parts_append_sep [of "[]" a] by simp

lemma path_parts_name: "SEP \<notin> set n \<Longrightarrow> n \<noteq> [] \<Longrightarrow> n \<noteq> ''.'' \<Longrightarrow> path_parts n = [n]"
  by (simp add: path_parts_def split_on_no_sep)

lemma endswith_sep: "endswith a [SEP] \<Longrightarrow> \<exists>b. a = b @ [SEP]"
proof -
  assume "endswith a [SEP]"
  then have "drop (length a - 1) a = [SEP]" by (simp add: endswith_def)
  then have "a = take (length a - 1) a @ [SEP]"
    using append_take_drop_id [of "length a - 1" a] by simp
  then show ?thesis by blast
qed

lemma path_parts_join:
  assumes "SEP \<notin> set n" "n \<noteq> []" "n \<noteq> ''.''"
  shows "path_parts (join a n) = path_parts a @ [n]"
proof -
  have ns: "\<not> startswith n [SEP]"
    using assms(1,2) by (cases n) (auto simp: startswith_def)
  show ?thesis
  proof (cases "a = []")
    case True
    then show ?thesis using ns assms by (simp add: join_def path_parts_name) (simp add: path_parts_def)
  next
    case False
    show ?thesis
    proof (cases "endswith a [SEP]")
      case True
      then obtain b where b: "a = b @ [SEP]" using endswith_sep by blast
      have "join a n = b @ SEP # n" using ns True False b by (simp add: join_def)
      then show ?thesis
        using assms by (simp add: path_parts_append_sep b path_parts_snoc_sep)
    next
      case e: False
      have "join a n = a @ SEP # n" using ns e False by (simp add: join_def)
      then show ?thesis using assms by (simp add: path_parts_append_sep)
    qed
  qed
qed



lemma basename_no_sep: "SEP \<notin> set (basename p)"
proof -
  have "\<forall>c\<in>set (takeWhile (\<lambda>c. c \<noteq> SEP) (rev p)). c \<noteq> SEP"
    by (auto dest: set_takeWhileD)
  then show ?thesis by (auto simp: basename_def)
qed





lemma store_succeeds:
  "lookup e ns = Some (Dir d) \<Longrightarrow> \<not> (\<exists>d'. lookup e (ns @ [n]) = Some (Dir d'))
   \<Longrightarrow> \<exists>e'. store e (ns @ [n]) v = Some e'"
proof (induction ns arbitrary: e)
  case Nil
  then show ?case by (auto split: option.splits entry.splits)
next
  case (Cons x ns)
  from Cons.prems(1) obtain es e1 where e: "e = Dir es" and m: "map_of es x = Some e1"
    and l: "lookup e1 ns = Some (Dir d)"
    by (cases e) (auto split: option.splits)
  from Cons.prems(2) e m have "\<not> (\<exists>d'. lookup e1 (ns @ [n]) = Some (Dir d'))" by simp
  from Cons.IH [OF l this] obtain e' where s: "store e1 (ns @ [n]) v = Some e'" by blast
  obtain y ys where c: "ns @ [n] = y # ys" by (cases "ns @ [n]") auto
  show ?case using e m s c by simp
qed

lemma join_suffix: "SEP \<notin> set n \<Longrightarrow> n \<noteq> [] \<Longrightarrow> \<exists>x. join a n = x @ n"
proof -
  assume n: "SEP \<notin> set n" "n \<noteq> []"
  then have "\<not> startswith n [SEP]" by (cases n) (auto simp: startswith_def)
  then have "join a n = a @ n \<or> join a n = (a @ [SEP]) @ n" by (simp add: join_def)
  then show ?thesis by blast
qed

lemma join_not_dir_form:
  assumes "SEP \<notin> set n" "n \<noteq> []"
  shows "join a n \<noteq> [] \<and> \<not> endswith (join a n) [SEP]"
proof -
  from join_suffix [OF assms] obtain x where x: "join a n = x @ n" by blast
  have ne: "join a n \<noteq> []" using x assms(2) by simp
  have "last (join a n) = last n" using x assms(2) by simp
  moreover have "last n \<in> set n" using assms(2) by (rule last_in_set)
  ultimately have l: "last (join a n) \<noteq> SEP" using assms(1) by metis
  have "\<not> endswith (join a n) [SEP]"
  proof
    assume "endswith (join a n) [SEP]"
    then obtain b where "join a n = b @ [SEP]" using endswith_sep by blast
    then have "last (join a n) = SEP" by simp
    with l show False by simp
  qed
  with ne show ?thesis by simp
qed

lemma isdir_lookup:
  "isdir fs p \<Longrightarrow> \<exists>d. lookup fs (path_parts p) = Some (Dir d)"
  by (auto simp: isdir_def resolve_def split: if_splits option.splits entry.splits)


lemma write_text_succeeds:
  assumes p: "lookup fs (path_parts a) = Some (Dir d')"
    and o: "\<not> isdir fs (join a name)"
    and n: "SEP \<notin> set name" "name \<noteq> []" "name \<noteq> ''.''"
  shows "\<exists>fs'. write_text fs (join a name) v = Some fs'"
proof -
  let ?out = "join a name"
  have parts: "path_parts ?out = path_parts a @ [name]"
    by (rule path_parts_join [OF n])
  have form: "?out \<noteq> [] \<and> \<not> endswith ?out [SEP]"
    by (rule join_not_dir_form [OF n(1,2)])
  have nd: "\<not> (\<exists>d''. lookup fs (path_parts a @ [name]) = Some (Dir d''))"
  proof
    assume "\<exists>d''. lookup fs (path_parts a @ [name]) = Some (Dir d'')"
    then obtain d'' where "lookup fs (path_parts ?out) = Some (Dir d'')" by (auto simp: parts)
    then have "isdir fs ?out" using form by (simp add: isdir_def resolve_def)
    with o show False by simp
  qed
  from store_succeeds [OF p nd] obtain e' where "store fs (path_parts a @ [name]) v = Some e'"
    by blast
  then have "write_text fs ?out v = Some e'"
    using form by (simp add: write_text_def parts)
  then show ?thesis by blast
qed

lemma artifact_name_simple:
  "SEP \<notin> set (basename x @ ''_relationships.txt'')"
  "basename x @ ''_relationships.txt'' \<noteq> []"
  "basename x @ ''_relationships.txt'' \<noteq> ''.''"
  using basename_no_sep [of x] by simp_all

lemma str_of_nat_small:
  "str_of_nat 0 = ''0''" "str_of_nat (Suc 0) = ''1''" "str_of_nat (Suc (Suc 0)) = ''2''"
  "str_of_nat (Suc (Suc (Suc 0))) = ''3''"
  by code_simp+

text \<open>
  Claim C1, as stated, fails: the extraction result is a list, and two edges that resolve
  to the same pair give two entries; the artifact lists both and counts 2.
\<close>

theorem duplicate_edges_kept:
  "extract_relationships_from_edges
     \<lparr>get_nodes = [\<lparr>get_name = ''a'', get_label = None\<rparr>, \<lparr>get_name = ''b'', get_label = None\<rparr>],
      get_edges = [\<lparr>get_source = ''a'', get_destination = ''b''\<rparr>,
                   \<lparr>get_source = ''a'', get_destination = ''b''\<rparr>]\<rparr>
     (create_node_to_function_mapping
       \<lparr>get_nodes = [\<lparr>get_name = ''a'', get_label = None\<rparr>, \<lparr>get_name = ''b'', get_label = None\<rparr>],
        get_edges = [\<lparr>get_source = ''a'', get_destination = ''b''\<rparr>,
                     \<lparr>get_source = ''a'', get_destination = ''b''\<rparr>]\<rparr>) False
     = [''a -> b'', ''a -> b'']
   \<and> relationships_text [''a -> b'', ''a -> b''] ''g_cgraph.dot'' False =
       ''# Function call relationships from g_cgraph.dot'' @ [NL]
       @ ''# Total relationships: 2'' @ [NL]
       @ ''# Format: caller -> callee'' @ [NL, NL]
       @ ''a -> b'' @ [NL] @ ''a -> b'' @ [NL]"
  by (simp add: extract_relationships_from_edges_def edge_relationship_def get_or_self_def
      create_node_to_function_mapping_def extract_function_name_def strip_quotes_def
      strip_chars_def ident_search_def is_ident_start_def is_ident_char_def
      relationships_text_def basename_def str_of_nat_small)

text \<open>
  Claim C1, amended. For every graph and polarity the extraction result is a list with
  exactly one entry per edge, in the order of the edges, duplicates kept; the per-file
  artifact has one relationship line per edge, and the total count of its header is the
  number of edges.
\<close>

theorem one_entry_per_edge:
  "length (extract_relationships_from_edges g m is_icgraph) = length (get_edges g)
   \<and> (i < length (get_edges g) \<longrightarrow>
        extract_relationships_from_edges g m is_icgraph ! i = edge_relationship m is_icgraph (get_edges g ! i))
   \<and> relationships_text (extract_relationships_from_edges g m is_icgraph) path is_icgraph =
       ''# Function call relationships from '' @ basename path @ [NL]
       @ ''# Total relationships: '' @ str_of_nat (length (get_edges g)) @ [NL]
       @ (if is_icgraph then ''# Format: callee -> caller'' else ''# Format: caller -> callee'') @ [NL, NL]
       @ concat (map (\<lambda>r. r @ [NL]) (sort (map (edge_relationship m is_icgraph) (get_edges g))))
   \<and> length (sort (map (edge_relationship m is_icgraph) (get_edges g))) = length (get_edges g)"
  by (simp add: extract_relationships_from_edges_def relationships_text_def)

theorem one_entry_per_edge_witness:
  "extract_relationships_from_edges
     \<lparr>get_nodes = [], get_edges = [\<lparr>get_source = ''x'', get_destination = ''y''\<rparr>,
                                   \<lparr>get_source = ''x'', get_destination = ''y''\<rparr>]\<rparr> Map.empty True ! 1
   = ''y -> x''"
proof -
  have "(1::nat) < length (get_edges \<lparr>get_nodes = [], get_edges = [\<lparr>get_source = ''x'', get_destination = ''y''\<rparr>,
                                   \<lparr>get_source = ''x'', get_destination = ''y''\<rparr>]\<rparr>)"
    by simp
  with one_entry_per_edge [of "\<lparr>get_nodes = [], get_edges = [\<lparr>get_source = ''x'', get_destination = ''y''\<rparr>,
                                   \<lparr>get_source = ''x'', get_destination = ''y''\<rparr>]\<rparr>" Map.empty True 1]
  have "extract_relationships_from_edges
     \<lparr>get_nodes = [], get_edges = [\<lparr>get_source = ''x'', get_destination = ''y''\<rparr>,
                                   \<lparr>get_source = ''x'', get_destination = ''y''\<rparr>]\<rparr> Map.empty True ! 1
     = edge_relationship Map.empty True (get_edges \<lparr>get_nodes = [], get_edges = [\<lparr>get_source = ''x'', get_destination = ''y''\<rparr>,
                                   \<lparr>get_source = ''x'', get_destination = ''y''\<rparr>]\<rparr> ! 1)"
    by blast
  then show ?thesis
    by (simp add: edge_relationship_def get_or_self_def strip_quotes_def strip_chars_def)
qed

text \<open>
  Claim C8. The per-file artifact is a comment header with the source file name, the
  total count and the format descriptor (\<open>callee -> caller\<close> for Inverted,
  \<open>caller -> callee\<close> for Forward), a blank line, and the relationship strings in
  ascending lexicographic order, one per line.
\<close>

theorem per_file_artifact_format:
  "relationships_text rels path is_icgraph =
       ''# Function call relationships from '' @ basename path @ [NL]
       @ ''# Total relationships: '' @ str_of_nat (length rels) @ [NL]
       @ (if is_icgraph then ''# Format: callee -> caller'' else ''# Format: caller -> callee'') @ [NL]
       @ [NL]
       @ concat (map (\<lambda>r. r @ [NL]) (sort rels))
   \<and> sorted (sort rels) \<and> mset (sort rels) = mset rels
   \<and> (distinct rels \<longrightarrow> sorted_wrt (<) (sort rels))
   \<and> (NL \<notin> set (basename path) \<and> (\<forall>r\<in>set rels. NL \<notin> set r) \<longrightarrow>
        file_lines (relationships_text rels path is_icgraph) =
          [''# Function call relationships from '' @ basename path @ [NL],
           ''# Total relationships: '' @ str_of_nat (length rels) @ [NL],
           (if is_icgraph then ''# Format: callee -> caller'' else ''# Format: caller -> callee'') @ [NL],
           [NL]]
          @ map (\<lambda>r. r @ [NL]) (sort rels))
   \<and> (write_relationships_to_file fs out rels path is_icgraph = Some fs' \<longrightarrow>
        resolve fs' out = Some (File (relationships_text rels path is_icgraph)))"
proof -
  have a: "relationships_text rels path is_icgraph =
       ''# Function call relationships from '' @ basename path @ [NL]
       @ ''# Total relationships: '' @ str_of_nat (length rels) @ [NL]
       @ (if is_icgraph then ''# Format: callee -> caller'' else ''# Format: caller -> callee'') @ [NL]
       @ [NL]
       @ concat (map (\<lambda>r. r @ [NL]) (sort rels))"
    by (simp add: relationships_text_def)
  have b: "distinct rels \<longrightarrow> sorted_wrt (<) (sort rels)"
    by (simp add: strict_sorted_iff)
  have c: "file_lines (relationships_text rels path is_icgraph) =
          [''# Function call relationships from '' @ basename path @ [NL],
           ''# Total relationships: '' @ str_of_nat (length rels) @ [NL],
           (if is_icgraph then ''# Format: callee -> caller'' else ''# Format: caller -> callee'') @ [NL],
           [NL]]
          @ map (\<lambda>r. r @ [NL]) (sort rels)"
    if h: "NL \<notin> set (basename path)" "\<forall>r\<in>set rels. NL \<notin> set r"
  proof -
    have l1: "NL \<notin> set (''# Function call relationships from '' @ basename path)"
      using h(1) by simp
    have l2: "NL \<notin> set (''# Total relationships: '' @ str_of_nat (length rels))"
      using str_of_nat_no_NL by simp
    have l3: "NL \<notin> set (if is_icgraph then ''# Format: callee -> caller'' else ''# Format: caller -> callee'')"
      by simp
    have l4: "NL \<notin> set ([] :: string)" by simp
    have l5: "\<forall>r\<in>set (sort rels). NL \<notin> set r" using h(2) by simp
    have "relationships_text rels path is_icgraph =
       (''# Function call relationships from '' @ basename path) @ NL #
       ((''# Total relationships: '' @ str_of_nat (length rels)) @ NL #
       ((if is_icgraph then ''# Format: callee -> caller'' else ''# Format: caller -> callee'') @ NL #
       ([] @ NL #
       concat (map (\<lambda>r. r @ [NL]) (sort rels)))))"
      by (simp add: relationships_text_def)
    then show ?thesis
      by (simp only: file_lines_line [OF l1] file_lines_line [OF l2] file_lines_line [OF l3]
          file_lines_line [OF l4] file_lines_concat [OF l5]) simp
  qed
  have d: "write_relationships_to_file fs out rels path is_icgraph = Some fs' \<longrightarrow>
        resolve fs' out = Some (File (relationships_text rels path is_icgraph))"
    by (simp add: write_relationships_to_file_def resolve_write_text)
  show ?thesis
    using a b c d by (simp del: append.simps)
qed

theorem per_file_artifact_format_witness:
  "file_lines (relationships_text [''b -> c'', ''a -> b''] ''d/f_icgraph.dot'' True) =
     [''# Function call relationships from f_icgraph.dot'' @ [NL],
      ''# Total relationships: 2'' @ [NL],
      ''# Format: callee -> caller'' @ [NL],
      [NL], ''a -> b'' @ [NL], ''b -> c'' @ [NL]]"
proof -
  have h: "NL \<notin> set (basename ''d/f_icgraph.dot'')
      \<and> (\<forall>r\<in>set [''b -> c'', ''a -> b'']. NL \<notin> set r)"
    by (simp add: basename_def)
  note t = per_file_artifact_format [of "[''b -> c'', ''a -> b'']" "''d/f_icgraph.dot''" True,
      THEN conjunct2, THEN conjunct2, THEN conjunct2, THEN conjunct2, THEN conjunct1]
  from t h have "file_lines (relationships_text [''b -> c'', ''a -> b''] ''d/f_icgraph.dot'' True) =
          [''# Function call relationships from '' @ basename ''d/f_icgraph.dot'' @ [NL],
           ''# Total relationships: '' @ str_of_nat (length [''b -> c'', ''a -> b'']) @ [NL],
           (if True then ''# Format: callee -> caller'' else ''# Format: caller -> callee'') @ [NL],
           [NL]]
          @ map (\<lambda>r. r @ [NL]) (sort [''b -> c'', ''a -> b''])"
    by (rule mp)
  then show ?thesis
    by (simp add: basename_def str_of_nat_small)
qed

text \<open>
  Claim C10. The polarity of a dot file is Inverted exactly when \<open>_icgraph\<close> occurs
  in its full path, a directory name included. The step computes that one value, writes
  the artifact whose format descriptor and whose every line follow it, and the artifact
  is there afterwards whenever the output directory exists and the artifact path does
  not name a directory.
\<close>

theorem polarity_from_full_path:
  "(let is_icgraph = contains ''_icgraph'' dot_file_path;
        out = join (get_output_directory dot_file_path)
                (basename (splitext_root dot_file_path) @ ''_relationships.txt'');
        artifact =
          ''# Function call relationships from '' @ basename dot_file_path @ [NL]
          @ ''# Total relationships: '' @ str_of_nat (length (get_edges g)) @ [NL]
          @ (if is_icgraph then ''# Format: callee -> caller''
             else ''# Format: caller -> callee'') @ [NL, NL]
          @ concat (map (\<lambda>r. r @ [NL]) (sort (map (\<lambda>e.
              if is_icgraph
              then resolved g (strip_quotes (get_destination e)) @ '' -> ''
                   @ resolved g (strip_quotes (get_source e))
              else resolved g (strip_quotes (get_source e)) @ '' -> ''
                   @ resolved g (strip_quotes (get_destination e))) (get_edges g))))
    in generate_function_relationships_text fs g dot_file_path =
         (case write_text fs out artifact of
            None \<Rightarrow> (None, fs)
          | Some fs' \<Rightarrow> (Some out, fs'))
       \<and> (isdir fs (get_output_directory dot_file_path) \<and> \<not> isdir fs out \<longrightarrow>
            fst (generate_function_relationships_text fs g dot_file_path) = Some out
            \<and> resolve (snd (generate_function_relationships_text fs g dot_file_path)) out
                = Some (File artifact)))
   \<and> contains ''_icgraph'' ''run_icgraph/f.dot''
   \<and> \<not> contains ''_icgraph'' (basename ''run_icgraph/f.dot'')"
proof -
  define icg where "icg = contains ''_icgraph'' dot_file_path"
  define out where "out = join (get_output_directory dot_file_path)
                (basename (splitext_root dot_file_path) @ ''_relationships.txt'')"
  define artifact where "artifact =
          ''# Function call relationships from '' @ basename dot_file_path @ [NL]
          @ ''# Total relationships: '' @ str_of_nat (length (get_edges g)) @ [NL]
          @ (if icg then ''# Format: callee -> caller''
             else ''# Format: caller -> callee'') @ [NL, NL]
          @ concat (map (\<lambda>r. r @ [NL]) (sort (map (\<lambda>e.
              if icg
              then resolved g (strip_quotes (get_destination e)) @ '' -> ''
                   @ resolved g (strip_quotes (get_source e))
              else resolved g (strip_quotes (get_source e)) @ '' -> ''
                   @ resolved g (strip_quotes (get_destination e))) (get_edges g))))"
  have rel: "extract_relationships_from_edges g (create_node_to_function_mapping g) icg =
      map (\<lambda>e. if icg then resolved g (strip_quotes (get_destination e)) @ '' -> ''
                  @ resolved g (strip_quotes (get_source e))
             else resolved g (strip_quotes (get_source e)) @ '' -> ''
                  @ resolved g (strip_quotes (get_destination e))) (get_edges g)"
    by (simp add: extract_relationships_from_edges_def edge_relationship_def get_or_self_mapping)
  have art: "relationships_text
      (extract_relationships_from_edges g (create_node_to_function_mapping g) icg)
      dot_file_path icg = artifact"
    unfolding rel by (simp add: relationships_text_def artifact_def)
  have run: "generate_function_relationships_text fs g dot_file_path =
         (case write_text fs out artifact of
            None \<Rightarrow> (None, fs)
          | Some fs' \<Rightarrow> (Some out, fs'))"
    unfolding art [symmetric] icg_def out_def
    by (simp add: generate_function_relationships_text_def Let_def write_relationships_to_file_def)
  have ok: "fst (generate_function_relationships_text fs g dot_file_path) = Some out
            \<and> resolve (snd (generate_function_relationships_text fs g dot_file_path)) out
                = Some (File artifact)"
    if d: "isdir fs (get_output_directory dot_file_path)" and o: "\<not> isdir fs out"
  proof -
    from isdir_lookup [OF d] obtain dd
      where l: "lookup fs (path_parts (get_output_directory dot_file_path)) = Some (Dir dd)"
      by blast
    from write_text_succeeds [OF l o [unfolded out_def] artifact_name_simple, of artifact]
    obtain fs' where w: "write_text fs out artifact = Some fs'"
      unfolding out_def by blast
    then have "resolve fs' out = Some (File artifact)" by (rule resolve_write_text)
    with w run show ?thesis by simp
  qed
  have b: "contains ''_icgraph'' ''run_icgraph/f.dot''"
    by (simp add: startswith_def)
  have c: "\<not> contains ''_icgraph'' (basename ''run_icgraph/f.dot'')"
    by (simp add: basename_def startswith_def)
  have "(generate_function_relationships_text fs g dot_file_path =
         (case write_text fs out artifact of
            None \<Rightarrow> (None, fs)
          | Some fs' \<Rightarrow> (Some out, fs'))
       \<and> (isdir fs (get_output_directory dot_file_path) \<and> \<not> isdir fs out \<longrightarrow>
            fst (generate_function_relationships_text fs g dot_file_path) = Some out
            \<and> resolve (snd (generate_function_relationships_text fs g dot_file_path)) out
                = Some (File artifact)))"
    using run ok by blast
  then show ?thesis
    unfolding Let_def icg_def out_def artifact_def using b c by blast
qed

text \<open>A dot file whose directory, not its base name, carries the marker.\<close>

theorem polarity_from_full_path_witness:
  "fst (generate_function_relationships_text (Dir [(''run_icgraph'', Dir [])])
          \<lparr>get_nodes = [], get_edges = [\<lparr>get_source = ''p'', get_destination = ''q''\<rparr>]\<rparr>
          ''run_icgraph/f.dot'')
     = Some ''run_icgraph/f_relationships.txt''
   \<and> resolve (snd (generate_function_relationships_text (Dir [(''run_icgraph'', Dir [])])
          \<lparr>get_nodes = [], get_edges = [\<lparr>get_source = ''p'', get_destination = ''q''\<rparr>]\<rparr>
          ''run_icgraph/f.dot''))
        ''run_icgraph/f_relationships.txt''
     = Some (File
        (''# Function call relationships from f.dot'' @ [NL]
         @ ''# Total relationships: 1'' @ [NL]
         @ ''# Format: callee -> caller'' @ [NL, NL] @ ''q -> p'' @ [NL]))"
proof -
  let ?g = "\<lparr>get_nodes = [], get_edges = [\<lparr>get_source = ''p'', get_destination = ''q''\<rparr>]\<rparr>"
  let ?fs = "Dir [(''run_icgraph'', Dir [])]"
  have out: "join (get_output_directory ''run_icgraph/f.dot'')
                (basename (splitext_root ''run_icgraph/f.dot'') @ ''_relationships.txt'')
      = ''run_icgraph/f_relationships.txt''"
    by code_simp
  have art: "''# Function call relationships from '' @ basename ''run_icgraph/f.dot'' @ [NL]
          @ ''# Total relationships: '' @ str_of_nat (length (get_edges ?g)) @ [NL]
          @ (if contains ''_icgraph'' ''run_icgraph/f.dot'' then ''# Format: callee -> caller''
             else ''# Format: caller -> callee'') @ [NL, NL]
          @ concat (map (\<lambda>r. r @ [NL]) (sort (map (\<lambda>e.
              if contains ''_icgraph'' ''run_icgraph/f.dot''
              then resolved ?g (strip_quotes (get_destination e)) @ '' -> ''
                   @ resolved ?g (strip_quotes (get_source e))
              else resolved ?g (strip_quotes (get_source e)) @ '' -> ''
                   @ resolved ?g (strip_quotes (get_destination e))) (get_edges ?g))))
      = ''# Function call relationships from f.dot'' @ [NL]
         @ ''# Total relationships: 1'' @ [NL]
         @ ''# Format: callee -> caller'' @ [NL, NL] @ ''q -> p'' @ [NL]"
    by code_simp
  have h: "isdir ?fs (get_output_directory ''run_icgraph/f.dot'')
      \<and> \<not> isdir ?fs (join (get_output_directory ''run_icgraph/f.dot'')
                (basename (splitext_root ''run_icgraph/f.dot'') @ ''_relationships.txt''))"
    by code_simp
  note t = polarity_from_full_path [where fs = ?fs and g = ?g and dot_file_path = "''run_icgraph/f.dot''",
      THEN conjunct1, unfolded Let_def, THEN conjunct2, THEN mp, OF h]
  from t show ?thesis
    unfolding out art .
qed

section \<open>Properties of the combined artifact\<close>

lemma collect_unique_from_union:
  "collect_unique_from fs acc files = Some S \<Longrightarrow> S = acc \<union> located_relationships fs files"
proof (induction files arbitrary: acc)
  case Nil
  then show ?case by (simp add: located_relationships_def)
next
  case (Cons f files)
  from Cons.prems obtain t where t: "read_text fs f = Some t"
    and r: "collect_unique_from fs (acc \<union> set (relationship_lines t)) files = Some S"
    by (auto split: option.splits)
  from Cons.IH [OF r] t show ?case
    by (auto simp: located_relationships_def)
qed

lemma finite_located_relationships: "finite (located_relationships fs files)"
  by (auto simp: located_relationships_def split: option.splits)

lemma generate_combined_success:
  assumes "generate_combined_relationships_file fs directory dot_files = (Some out, fs')"
  shows "out = join (get_output_dir_for_combined_file directory) ''all_function_relationships.txt''
    \<and> write_text fs out
         (combined_text (get_output_dir_for_combined_file directory)
            (located_relationships fs (find_relationship_files fs dot_files))
            (contains ''callee_caller'' (lower (basename directory)))) = Some fs'"
proof -
  from assms obtain S where
    c: "collect_unique_relationships fs (find_relationship_files fs dot_files) = Some S"
    by (auto simp: generate_combined_relationships_file_def Let_def split: option.splits)
  then have S: "S = located_relationships fs (find_relationship_files fs dot_files)"
    using collect_unique_from_union [of fs "{}"] by (simp add: collect_unique_relationships_def)
  from assms c show ?thesis
    unfolding S
    by (auto simp: generate_combined_relationships_file_def Let_def split: option.splits)
qed

text \<open>
  Claim C5, as stated, fails: the aggregator reads the artifacts of the dot files it is
  given, not every artifact beneath the directory. Here the directory holds a second
  artifact with \<open>u -> v\<close>, which a scan of the directory finds and the combined
  artifact lacks.
\<close>

theorem orphan_artifact_not_combined:
  "find_dot_files orphan_fs ''d'' = [''d/dot_files/a_cgraph.dot'']
   \<and> fst (generate_combined_relationships_file orphan_fs ''d'' (find_dot_files orphan_fs ''d''))
       = Some ''d/all_function_relationships.txt''
   \<and> read_text (snd (generate_combined_relationships_file orphan_fs ''d'' (find_dot_files orphan_fs ''d'')))
         ''d/all_function_relationships.txt''
       = Some (''# Combined function call relationships from all dot files in d'' @ [NL]
               @ ''# Total unique relationships: 1'' @ [NL]
               @ ''# Format: caller -> callee'' @ [NL, NL]
               @ ''x -> y'' @ [NL])
   \<and> map fst (collect_relationships_from_directory orphan_fs ''d'') = [''x -> y'', ''u -> v'']"
  by code_simp

text \<open>
  Claim C5, amended. For every directory and list of dot files, the relationship set of
  the combined artifact is the exact set union of the relationship sets of the per-file
  artifacts that exist for those dot files; each relationship is one line, and the total
  count is the number of distinct relationships. Two artifacts that each hold
  \<open>x -> y\<close> give that line once and the count 1.
\<close>

theorem combined_is_union_of_located_artifacts:
  assumes "generate_combined_relationships_file fs directory dot_files = (Some out, fs')"
  shows "resolve fs' out = Some (File
           (''# Combined function call relationships from all dot files in ''
              @ basename (get_output_dir_for_combined_file directory) @ [NL]
            @ ''# Total unique relationships: ''
              @ str_of_nat (card (located_relationships fs (find_relationship_files fs dot_files))) @ [NL]
            @ (if contains ''callee_caller'' (lower (basename directory))
               then ''# Format: callee -> caller'' else ''# Format: caller -> callee'') @ [NL, NL]
            @ concat (map (\<lambda>r. r @ [NL])
                (sorted_list_of_set (located_relationships fs (find_relationship_files fs dot_files))))))
    \<and> set (sorted_list_of_set (located_relationships fs (find_relationship_files fs dot_files)))
        = located_relationships fs (find_relationship_files fs dot_files)
    \<and> distinct (sorted_list_of_set (located_relationships fs (find_relationship_files fs dot_files)))
    \<and> length (sorted_list_of_set (located_relationships fs (find_relationship_files fs dot_files)))
        = card (located_relationships fs (find_relationship_files fs dot_files))"
proof -
  let ?U = "located_relationships fs (find_relationship_files fs dot_files)"
  have fin: "finite ?U" by (rule finite_located_relationships)
  from generate_combined_success [OF assms]
  have "resolve fs' out = Some (File (combined_text (get_output_dir_for_combined_file directory) ?U
            (contains ''callee_caller'' (lower (basename directory)))))"
    by (auto dest: resolve_write_text)
  then show ?thesis
    using fin by (simp add: combined_text_def)
qed

theorem combined_is_union_of_located_artifacts_witness:
  "resolve (snd (generate_combined_relationships_file scenario_c_fs ''g'' [''g/a.dot'', ''g/b.dot'']))
      ''g/all_function_relationships.txt''
   = Some (File
       (''# Combined function call relationships from all dot files in g'' @ [NL]
        @ ''# Total unique relationships: 1'' @ [NL]
        @ ''# Format: caller -> callee'' @ [NL, NL]
        @ ''x -> y'' @ [NL]))"
proof -
  have run: "generate_combined_relationships_file scenario_c_fs ''g'' [''g/a.dot'', ''g/b.dot'']
     = (Some ''g/all_function_relationships.txt'',
        snd (generate_combined_relationships_file scenario_c_fs ''g'' [''g/a.dot'', ''g/b.dot'']))"
    by code_simp
  have files: "find_relationship_files scenario_c_fs [''g/a.dot'', ''g/b.dot'']
      = [''g/a_relationships.txt'', ''g/b_relationships.txt'']"
    by code_simp
  have U: "located_relationships scenario_c_fs [''g/a_relationships.txt'', ''g/b_relationships.txt'']
      = {''x -> y''}"
    by code_simp
  have misc: "basename (get_output_dir_for_combined_file ''g'') = ''g''"
    "contains ''callee_caller'' (lower (basename ''g'')) = False"
    by code_simp+
  from combined_is_union_of_located_artifacts [OF run, THEN conjunct1]
  show ?thesis
    unfolding files U misc by (simp add: str_of_nat_small)
qed

text \<open>
  Claim C9, as stated, fails: the aggregator takes no category tag. With the same
  relationship files, the directory name alone changes the descriptor.
\<close>

theorem header_category_follows_directory_name:
  "find_relationship_files renamed_fs [''data/f.dot''] = [''data/f_relationships.txt'']
   \<and> read_text (snd (generate_combined_relationships_file renamed_fs ''callee_caller_graph'' [''data/f.dot'']))
         ''callee_caller_graph/all_function_relationships.txt''
       = Some (''# Combined function call relationships from all dot files in callee_caller_graph'' @ [NL]
               @ ''# Total unique relationships: 1'' @ [NL]
               @ ''# Format: callee -> caller'' @ [NL, NL]
               @ ''p -> q'' @ [NL])
   \<and> read_text (snd (generate_combined_relationships_file renamed_fs ''caller_callee_graph'' [''data/f.dot'']))
         ''caller_callee_graph/all_function_relationships.txt''
       = Some (''# Combined function call relationships from all dot files in caller_callee_graph'' @ [NL]
               @ ''# Total unique relationships: 1'' @ [NL]
               @ ''# Format: caller -> callee'' @ [NL, NL]
               @ ''p -> q'' @ [NL])"
  by code_simp

text \<open>
  Claim C9, amended. The category stated in the header of the combined artifact is
  derived by the aggregator from the name of the directory: the descriptor is
  \<open>callee -> caller\<close> exactly when the lower-cased base name of the directory contains
  \<open>callee_caller\<close>, and \<open>caller -> callee\<close> otherwise, whatever the relationship
  files hold.
\<close>

theorem combined_header_from_directory_name:
  assumes "generate_combined_relationships_file fs directory dot_files = (Some out, fs')"
    and "NL \<notin> set (basename (get_output_dir_for_combined_file directory))"
  shows "\<exists>text. resolve fs' out = Some (File text)
     \<and> file_lines text ! 2 =
         (if contains ''callee_caller'' (lower (basename directory))
          then ''# Format: callee -> caller'' else ''# Format: caller -> callee'') @ [NL]"
proof -
  let ?U = "located_relationships fs (find_relationship_files fs dot_files)"
  let ?d = "get_output_dir_for_combined_file directory"
  let ?c = "contains ''callee_caller'' (lower (basename directory))"
  let ?fmt = "if ?c then ''# Format: callee -> caller'' else ''# Format: caller -> callee''"
  from generate_combined_success [OF assms(1)]
  have r: "resolve fs' out = Some (File (combined_text ?d ?U ?c))"
    by (auto dest: resolve_write_text)
  have l1: "NL \<notin> set (''# Combined function call relationships from all dot files in '' @ basename ?d)"
    using assms(2) by simp
  have l2: "NL \<notin> set (''# Total unique relationships: '' @ str_of_nat (card ?U))"
    using str_of_nat_no_NL by simp
  have l3: "NL \<notin> set ?fmt" by simp
  have "combined_text ?d ?U ?c =
     (''# Combined function call relationships from all dot files in '' @ basename ?d) @ NL #
     ((''# Total unique relationships: '' @ str_of_nat (card ?U)) @ NL #
     (?fmt @ NL # (NL # concat (map (\<lambda>r. r @ [NL]) (sorted_list_of_set ?U)))))"
    by (simp add: combined_text_def)
  then have "file_lines (combined_text ?d ?U ?c) ! 2 = ?fmt @ [NL]"
    by (simp only: file_lines_line [OF l1] file_lines_line [OF l2] file_lines_line [OF l3]) simp
  with r show ?thesis by blast
qed

theorem combined_header_from_directory_name_witness:
  "\<exists>text. resolve (snd (generate_combined_relationships_file renamed_fs ''callee_caller_graph''
        [''data/f.dot''])) ''callee_caller_graph/all_function_relationships.txt'' = Some (File text)
     \<and> file_lines text ! 2 = ''# Format: callee -> caller'' @ [NL]"
proof -
  have run: "generate_combined_relationships_file renamed_fs ''callee_caller_graph'' [''data/f.dot'']
     = (Some ''callee_caller_graph/all_function_relationships.txt'',
        snd (generate_combined_relationships_file renamed_fs ''callee_caller_graph''
          [''data/f.dot'']))"
    by code_simp
  have h: "NL \<notin> set (basename (get_output_dir_for_combined_file ''callee_caller_graph''))"
    by code_simp
  have c: "contains ''callee_caller'' (lower (basename ''callee_caller_graph'')) = True"
    by code_simp
  from combined_header_from_directory_name [OF run h]
  show ?thesis
    unfolding c by simp
qed

section \<open>Properties of the master artifact\<close>

lemma keys_fold_update:
  "fst ` set ((foldl (\<lambda>d k. AList.update k True d) d0 ks)) = fst ` set d0 \<union> set ks"
  by (induction ks arbitrary: d0) (auto simp: dom_update)

lemma distinct_fold_update:
  "distinct (map fst d0) \<Longrightarrow> distinct (map fst (foldl (\<lambda>d k. AList.update k True d) d0 ks))"
  by (induction ks arbitrary: d0) (auto simp: distinct_update)

lemma isfile_read_text: "isfile fs p \<longleftrightarrow> read_text fs p \<noteq> None"
  by (auto simp: isfile_def read_text_def split: option.splits entry.splits)

lemma keys_read_relationships:
  "fst ` set ((read_relationships_from_file fs p)) = artifact_relationships fs p"
proof (cases "read_text fs p")
  case None
  then show ?thesis
    by (simp add: read_relationships_from_file_def artifact_relationships_def isfile_read_text)
next
  case (Some t)
  then show ?thesis
    by (simp add: read_relationships_from_file_def artifact_relationships_def isfile_read_text
        keys_fold_update)
qed

lemma distinct_read_relationships: "distinct (map fst (read_relationships_from_file fs p))"
  by (auto simp: read_relationships_from_file_def distinct_fold_update split: option.splits)

lemma keys_dict_update:
  "fst ` set ((dict_update d other)) = fst ` set d \<union> fst ` set other"
  unfolding dict_update_def
  by (induction other arbitrary: d) (auto simp: dom_update)

lemma distinct_dict_update:
  "distinct (map fst d) \<Longrightarrow> distinct (map fst (dict_update d other))"
  unfolding dict_update_def
  by (induction other arbitrary: d) (auto simp: distinct_update)

lemma keys_collect_files:
  "fst ` set ((foldl (\<lambda>relationships file.
           if endswith file ''_relationships.txt'' \<and> file \<noteq> ''all_function_relationships.txt''
           then dict_update relationships (read_relationships_from_file fs (join root file))
           else relationships) d files))
   = fst ` set d \<union>
     (\<Union>file\<in>set (filter (\<lambda>file. endswith file ''_relationships.txt''
                                  \<and> file \<noteq> ''all_function_relationships.txt'') files).
          artifact_relationships fs (join root file))"
  by (induction files arbitrary: d) (auto simp: keys_dict_update keys_read_relationships)

lemma distinct_collect_files:
  "distinct (map fst d) \<Longrightarrow>
   distinct (map fst (foldl (\<lambda>relationships file.
           if endswith file ''_relationships.txt'' \<and> file \<noteq> ''all_function_relationships.txt''
           then dict_update relationships (read_relationships_from_file fs (join root file))
           else relationships) d files))"
  by (induction files arbitrary: d) (auto simp: distinct_dict_update)

lemma keys_collect_walk:
  "fst ` set ((foldl (\<lambda>relationships (root, files).
        foldl (\<lambda>relationships file.
           if endswith file ''_relationships.txt'' \<and> file \<noteq> ''all_function_relationships.txt''
           then dict_update relationships (read_relationships_from_file fs (join root file))
           else relationships) relationships files) d w))
   = fst ` set d \<union>
     (\<Union>(root, files)\<in>set w.
        \<Union>file\<in>set (filter (\<lambda>file. endswith file ''_relationships.txt''
                                  \<and> file \<noteq> ''all_function_relationships.txt'') files).
          artifact_relationships fs (join root file))"
proof (induction w arbitrary: d)
  case Nil
  show ?case by simp
next
  case (Cons a w)
  obtain root files where a: "a = (root, files)" by (cases a)
  show ?case
    unfolding a by (simp add: Cons.IH keys_collect_files Un_assoc)
qed

lemma distinct_collect_walk:
  "distinct (map fst d) \<Longrightarrow>
   distinct (map fst (foldl (\<lambda>relationships (root, files).
        foldl (\<lambda>relationships file.
           if endswith file ''_relationships.txt'' \<and> file \<noteq> ''all_function_relationships.txt''
           then dict_update relationships (read_relationships_from_file fs (join root file))
           else relationships) relationships files) d w))"
proof (induction w arbitrary: d)
  case Nil
  then show ?case by simp
next
  case (Cons a w)
  obtain root files where a: "a = (root, files)" by (cases a)
  show ?case
    unfolding a using Cons.prems by (simp add: Cons.IH distinct_collect_files)
qed

lemma keys_collect_relationships:
  "fst ` set ((collect_relationships_from_directory fs directory)) = relationships_under fs directory"
  unfolding collect_relationships_from_directory_def relationships_under_def
  by (simp add: keys_collect_walk)

lemma distinct_collect_relationships:
  "distinct (map fst (collect_relationships_from_directory fs directory))"
  unfolding collect_relationships_from_directory_def
  by (simp add: distinct_collect_walk)

lemma master_text_sets:
  assumes "distinct (map fst cc)" "distinct (map fst ce)"
  shows "master_text base cc ce =
     ''# MASTER FUNCTION RELATIONSHIP FILE'' @ [NL]
     @ ''# Generated on: '' @ basename base @ [NL, NL]
     @ banner
     @ ''# CALLEE -> CALLER RELATIONSHIPS'' @ [NL]
     @ ''# Total: '' @ str_of_nat (card (fst ` set cc)) @ [NL]
     @ banner @ [NL]
     @ concat (map (\<lambda>r. r @ [NL]) (sorted_list_of_set (fst ` set cc)))
     @ [NL, NL] @ banner
     @ ''# CALLER -> CALLEE RELATIONSHIPS'' @ [NL]
     @ ''# Total: '' @ str_of_nat (card (fst ` set ce)) @ [NL]
     @ banner @ [NL]
     @ concat (map (\<lambda>r. r @ [NL]) (sorted_list_of_set (fst ` set ce)))
     @ [NL, NL] @ banner
     @ ''# STATISTICS'' @ [NL]
     @ banner
     @ ''# Total callee->caller relationships: '' @ str_of_nat (card (fst ` set cc)) @ [NL]
     @ ''# Total caller->callee relationships: '' @ str_of_nat (card (fst ` set ce)) @ [NL]
     @ ''# Total relationships: '' @ str_of_nat (card (fst ` set cc) + card (fst ` set ce)) @ [NL]"
proof -
  have c1: "card (fst ` set cc) = length cc" using distinct_card [OF assms(1)] by simp
  have c2: "card (fst ` set ce) = length ce" using distinct_card [OF assms(2)] by simp
  have s1: "sorted_list_of_set (fst ` set cc) = sort (map fst cc)"
    using sorted_list_of_set_sort_remdups [of "map fst cc"] distinct_remdups_id [OF assms(1)]
    by simp
  have s2: "sorted_list_of_set (fst ` set ce) = sort (map fst ce)"
    using sorted_list_of_set_sort_remdups [of "map fst ce"] distinct_remdups_id [OF assms(2)]
    by simp
  show ?thesis
    unfolding c1 c2 s1 s2 by (simp add: master_text_def)
qed

lemma path_parts_foldl_join:
  "list_all simple_name ns \<Longrightarrow> path_parts (foldl join d ns) = path_parts d @ ns"
proof (induction ns arbitrary: d)
  case Nil
  show ?case by simp
next
  case (Cons n ns)
  from Cons.prems have sn: "simple_name n" and ns: "list_all simple_name ns"
    by simp_all
  from sn have n: "SEP \<notin> set n" "n \<noteq> []" "n \<noteq> ''.''"
    by (simp_all add: simple_name_def)
  show ?case
    using Cons.IH [OF ns, of "join d n"] by (simp add: path_parts_join [OF n])
qed

lemma lookup_append:
  "lookup e (xs @ ys) = (case lookup e xs of None \<Rightarrow> None | Some e' \<Rightarrow> lookup e' ys)"
proof (induction xs arbitrary: e)
  case Nil
  show ?case by simp
next
  case (Cons x xs)
  show ?case by (cases e) (simp_all add: Cons.IH split: option.splits)
qed

lemma walk_complete:
  "lookup e ns = Some (Dir es') \<Longrightarrow>
   (foldl join root ns,
    map fst (filter (\<lambda>ne. case snd ne of File c \<Rightarrow> True | Dir d \<Rightarrow> False) es'))
     \<in> set (walk_entry root e)"
proof (induction ns arbitrary: e root)
  case Nil
  then show ?case by simp
next
  case (Cons n ns)
  from Cons.prems obtain es e1 where e: "e = Dir es" and m: "map_of es n = Some e1"
    and l: "lookup e1 ns = Some (Dir es')"
    by (cases e) (auto split: option.splits)
  from m have "(n, e1) \<in> set es" by (rule map_of_SomeD)
  moreover from Cons.IH [OF l, of "join root n"]
  have "(foldl join (join root n) ns,
    map fst (filter (\<lambda>ne. case snd ne of File c \<Rightarrow> True | Dir d \<Rightarrow> False) es'))
     \<in> set (walk_entry (join root n) e1)" .
  ultimately show ?case unfolding e by force
qed

lemma walk_sound:
  "simple_names e \<Longrightarrow> (r, files) \<in> set (walk_entry root e) \<Longrightarrow>
   \<exists>ns. list_all simple_name ns \<and> r = foldl join root ns \<and> list_all simple_name files"
proof (induction root e arbitrary: r files rule: walk_entry.induct)
  case (1 root c)
  then show ?case by simp
next
  case (2 root es)
  from "2.prems"(1) have wf: "\<forall>ne\<in>set es. simple_name (fst ne) \<and> simple_names (snd ne)"
    by (simp add: list_all_iff)
  from "2.prems"(2) consider
    (here) "r = root" "files = map fst (filter (\<lambda>ne. case snd ne of File c \<Rightarrow> True | Dir d \<Rightarrow> False) es)"
    | (below) ne where "ne \<in> set es" "(r, files) \<in> set (walk_entry (join root (fst ne)) (snd ne))"
    by auto
  then show ?case
  proof cases
    case here
    have "list_all simple_name files" using wf here(2) by (auto simp: list_all_iff)
    moreover have "r = foldl join root []" using here(1) by simp
    moreover have "list_all simple_name ([] :: string list)" by simp
    ultimately show ?thesis by blast
  next
    case below
    from wf below(1) have s: "simple_name (fst ne)" "simple_names (snd ne)" by auto
    from "2.IH" [OF below(1) s(2) below(2)] obtain ns where
      ns: "list_all simple_name ns" "r = foldl join (join root (fst ne)) ns"
        "list_all simple_name files"
      by blast
    have "list_all simple_name (fst ne # ns)" using s(1) ns(1) by simp
    moreover have "r = foldl join root (fst ne # ns)" using ns(2) by simp
    ultimately show ?thesis using ns(3) by blast
  qed
qed

lemma simple_names_lookup:
  "simple_names e \<Longrightarrow> lookup e ns = Some e' \<Longrightarrow> simple_names e'"
proof (induction ns arbitrary: e)
  case Nil
  then show ?case by simp
next
  case (Cons n ns)
  from Cons.prems(2) obtain es e1 where e: "e = Dir es" and m: "map_of es n = Some e1"
    and l: "lookup e1 ns = Some e'"
    by (cases e) (auto split: option.splits)
  from m have "(n, e1) \<in> set es" by (rule map_of_SomeD)
  with Cons.prems(1) e have "simple_names e1" by (auto simp: list_all_iff)
  from Cons.IH [OF this l] show ?case .
qed

lemma isdir_entry:
  "isdir fs d \<Longrightarrow> \<exists>es. resolve fs d = Some (Dir es) \<and> lookup fs (path_parts d) = Some (Dir es)"
  by (auto simp: isdir_def resolve_def split: if_splits option.splits entry.splits)

lemma artifact_file:
  "r \<in> artifact_relationships fs p \<Longrightarrow> \<exists>c. lookup fs (path_parts p) = Some (File c)"
  by (auto simp: artifact_relationships_def read_text_def resolve_def
      split: option.splits entry.splits if_splits)

lemma beneath_subset_under:
  assumes d: "isdir fs d"
  shows "relationships_beneath fs d \<subseteq> relationships_under fs d"
proof
  fix r
  assume "r \<in> relationships_beneath fs d"
  then obtain ns fname where ns: "list_all simple_name ns" and f: "simple_name fname"
    and a: "per_file_artifact_name fname"
    and r: "r \<in> artifact_relationships fs (foldl join d (ns @ [fname]))"
    unfolding relationships_beneath_def by blast
  from artifact_file [OF r] obtain c
    where c: "lookup fs (path_parts (foldl join d (ns @ [fname]))) = Some (File c)" by blast
  have "list_all simple_name (ns @ [fname])" using ns f by simp
  then have parts: "path_parts (foldl join d (ns @ [fname])) = path_parts d @ (ns @ [fname])"
    by (rule path_parts_foldl_join)
  from isdir_entry [OF d] obtain es where res: "resolve fs d = Some (Dir es)"
    and dl: "lookup fs (path_parts d) = Some (Dir es)" by blast
  from c have "lookup (Dir es) (ns @ [fname]) = Some (File c)"
    unfolding parts by (simp add: lookup_append dl)
  then obtain e' where e': "lookup (Dir es) ns = Some e'" and fl: "lookup e' [fname] = Some (File c)"
    by (auto simp: lookup_append split: option.splits)
  from fl obtain es' where es': "e' = Dir es'" and m: "map_of es' fname = Some (File c)"
    by (cases e') (auto split: option.splits)
  let ?files = "map fst (filter (\<lambda>ne. case snd ne of File c \<Rightarrow> True | Dir d \<Rightarrow> False) es')"
  have w: "(foldl join d ns, ?files) \<in> set (walk fs d)"
    using walk_complete [of "Dir es" ns es' d] e' es' res by (simp add: walk_def)
  from m have "(fname, File c) \<in> set es'" by (rule map_of_SomeD)
  then have fin: "fname \<in> set ?files" by force
  have r': "r \<in> artifact_relationships fs (join (foldl join d ns) fname)"
    using r by simp
  from a have cond: "endswith fname ''_relationships.txt'' \<and> fname \<noteq> ''all_function_relationships.txt''"
    by (simp add: per_file_artifact_name_def)
  show "r \<in> relationships_under fs d"
    unfolding relationships_under_def using w fin cond r' by force
qed

lemma under_subset_beneath:
  assumes wf: "simple_names fs" and d: "isdir fs d"
  shows "relationships_under fs d \<subseteq> relationships_beneath fs d"
proof
  fix r
  assume "r \<in> relationships_under fs d"
  then obtain root files fname where w: "(root, files) \<in> set (walk fs d)"
    and f: "fname \<in> set files"
    and cond: "endswith fname ''_relationships.txt'' \<and> fname \<noteq> ''all_function_relationships.txt''"
    and r: "r \<in> artifact_relationships fs (join root fname)"
    unfolding relationships_under_def by auto
  from isdir_entry [OF d] obtain es where res: "resolve fs d = Some (Dir es)"
    and dl: "lookup fs (path_parts d) = Some (Dir es)" by blast
  from simple_names_lookup [OF wf dl] have wfd: "simple_names (Dir es)" .
  from w res have "(root, files) \<in> set (walk_entry d (Dir es))" by (simp add: walk_def)
  from walk_sound [OF wfd this] obtain ns where ns: "list_all simple_name ns"
    and root: "root = foldl join d ns" and sfiles: "list_all simple_name files"
    by blast
  from sfiles f have sf: "simple_name fname" by (auto simp: list_all_iff)
  have "r \<in> artifact_relationships fs (foldl join d (ns @ [fname]))"
    using r root by simp
  moreover have "per_file_artifact_name fname" using cond by (simp add: per_file_artifact_name_def)
  ultimately show "r \<in> relationships_beneath fs d"
    unfolding relationships_beneath_def using ns sf by blast
qed

lemma relationships_beneath_walk:
  "simple_names fs \<Longrightarrow> isdir fs d \<Longrightarrow> relationships_beneath fs d = relationships_under fs d"
  using beneath_subset_under under_subset_beneath by blast

lemma category_relationships_walk:
  "simple_names fs \<Longrightarrow> category_relationships fs d =
     (if isdir fs d
      then (if isfile fs (join d ''all_function_relationships.txt'')
            then artifact_relationships fs (join d ''all_function_relationships.txt'')
            else relationships_under fs d)
      else {})"
  by (simp add: category_relationships_def relationships_beneath_walk)

lemma keys_category:
  "simple_names fs \<Longrightarrow>
   fst ` set (if isdir fs d \<and> isfile fs (join d ''all_function_relationships.txt'')
              then read_relationships_from_file fs (join d ''all_function_relationships.txt'')
              else if isdir fs d then collect_relationships_from_directory fs d else [])
   = category_relationships fs d"
  by (simp add: category_relationships_walk keys_read_relationships keys_collect_relationships)

lemma distinct_category:
  "distinct (map fst (if isdir fs d \<and> isfile fs (join d ''all_function_relationships.txt'')
              then read_relationships_from_file fs (join d ''all_function_relationships.txt'')
              else if isdir fs d then collect_relationships_from_directory fs d else []))"
  using distinct_read_relationships distinct_collect_relationships by simp

lemma generate_master_unfold:
  "generate_master_relationships_file fs base =
     (if \<not> isdir fs (join base ''callee_caller_graph'') \<and> \<not> isdir fs (join base ''caller_callee_graph'')
      then (Inl NoCategoryDirectoriesError, fs)
      else (case write_text fs (join (dirname base) ''master_function_relationships.txt'')
                  (master_text base
                    (if isdir fs (join base ''callee_caller_graph'')
                        \<and> isfile fs (join (join base ''callee_caller_graph'') ''all_function_relationships.txt'')
                     then read_relationships_from_file fs
                            (join (join base ''callee_caller_graph'') ''all_function_relationships.txt'')
                     else if isdir fs (join base ''callee_caller_graph'')
                     then collect_relationships_from_directory fs (join base ''callee_caller_graph'')
                     else [])
                    (if isdir fs (join base ''caller_callee_graph'')
                        \<and> isfile fs (join (join base ''caller_callee_graph'') ''all_function_relationships.txt'')
                     then read_relationships_from_file fs
                            (join (join base ''caller_callee_graph'') ''all_function_relationships.txt'')
                     else if isdir fs (join base ''caller_callee_graph'')
                     then collect_relationships_from_directory fs (join base ''caller_callee_graph'')
                     else [])) of
              None \<Rightarrow> (Inl IOError, fs)
            | Some fs' \<Rightarrow> (Inr (join (dirname base) ''master_function_relationships.txt''), fs')))"
  by (simp add: generate_master_relationships_file_def Let_def write_master_relationships_file_def)

lemma finite_artifact_relationships: "finite (artifact_relationships fs p)"
  by (simp add: artifact_relationships_def split: option.splits)

lemma finite_category_relationships:
  "simple_names fs \<Longrightarrow> finite (category_relationships fs d)"
  by (auto simp: category_relationships_walk relationships_under_def finite_artifact_relationships)

text \<open>
  Claim C6. For a category directory that exists, the master step takes the
  relationships of its combined artifact when there is one and otherwise the union of
  the per-file artifacts beneath the directory, at whatever depth; an absent directory
  gives an empty section with count 0; the grand total of the statistics block is the
  sum of the two section counts.
\<close>

theorem master_sections:
  "(simple_names fs \<and> generate_master_relationships_file fs base = (Inr out, fs') \<longrightarrow>
     (let inverted = category_relationships fs (join base ''callee_caller_graph'');
          forward = category_relationships fs (join base ''caller_callee_graph'')
      in resolve fs' out = Some (File
          (''# MASTER FUNCTION RELATIONSHIP FILE'' @ [NL]
           @ ''# Generated on: '' @ basename base @ [NL, NL]
           @ banner
           @ ''# CALLEE -> CALLER RELATIONSHIPS'' @ [NL]
           @ ''# Total: '' @ str_of_nat (card inverted) @ [NL]
           @ banner @ [NL]
           @ concat (map (\<lambda>r. r @ [NL]) (sorted_list_of_set inverted))
           @ [NL, NL] @ banner
           @ ''# CALLER -> CALLEE RELATIONSHIPS'' @ [NL]
           @ ''# Total: '' @ str_of_nat (card forward) @ [NL]
           @ banner @ [NL]
           @ concat (map (\<lambda>r. r @ [NL]) (sorted_list_of_set forward))
           @ [NL, NL] @ banner
           @ ''# STATISTICS'' @ [NL]
           @ banner
           @ ''# Total callee->caller relationships: '' @ str_of_nat (card inverted) @ [NL]
           @ ''# Total caller->callee relationships: '' @ str_of_nat (card forward) @ [NL]
           @ ''# Total relationships: '' @ str_of_nat (card inverted + card forward) @ [NL]))
        \<and> finite inverted \<and> finite forward))
   \<and> (\<not> isdir fs d \<longrightarrow> category_relationships fs d = {})
   \<and> (isdir fs d \<and> isfile fs (join d ''all_function_relationships.txt'') \<longrightarrow>
        category_relationships fs d
          = artifact_relationships fs (join d ''all_function_relationships.txt''))
   \<and> (isdir fs d \<and> \<not> isfile fs (join d ''all_function_relationships.txt'') \<longrightarrow>
        category_relationships fs d
          = {r. \<exists>names file. list_all simple_name names \<and> simple_name file
                  \<and> per_file_artifact_name file
                  \<and> r \<in> artifact_relationships fs (foldl join d (names @ [file]))})"
proof -
  let ?ccd = "join base ''callee_caller_graph''"
  let ?ced = "join base ''caller_callee_graph''"
  let ?cc = "if isdir fs ?ccd \<and> isfile fs (join ?ccd ''all_function_relationships.txt'')
             then read_relationships_from_file fs (join ?ccd ''all_function_relationships.txt'')
             else if isdir fs ?ccd then collect_relationships_from_directory fs ?ccd else []"
  let ?ce = "if isdir fs ?ced \<and> isfile fs (join ?ced ''all_function_relationships.txt'')
             then read_relationships_from_file fs (join ?ced ''all_function_relationships.txt'')
             else if isdir fs ?ced then collect_relationships_from_directory fs ?ced else []"
  have written: "resolve fs' out = Some (File (master_text base ?cc ?ce))"
    if s: "generate_master_relationships_file fs base = (Inr out, fs')"
  proof -
    from s have "write_text fs out (master_text base ?cc ?ce) = Some fs'"
      unfolding generate_master_unfold by (auto split: if_splits option.splits)
    then show ?thesis by (rule resolve_write_text)
  qed
  have sets: "master_text base ?cc ?ce =
          (''# MASTER FUNCTION RELATIONSHIP FILE'' @ [NL]
           @ ''# Generated on: '' @ basename base @ [NL, NL]
           @ banner
           @ ''# CALLEE -> CALLER RELATIONSHIPS'' @ [NL]
           @ ''# Total: '' @ str_of_nat (card (category_relationships fs ?ccd)) @ [NL]
           @ banner @ [NL]
           @ concat (map (\<lambda>r. r @ [NL]) (sorted_list_of_set (category_relationships fs ?ccd)))
           @ [NL, NL] @ banner
           @ ''# CALLER -> CALLEE RELATIONSHIPS'' @ [NL]
           @ ''# Total: '' @ str_of_nat (card (category_relationships fs ?ced)) @ [NL]
           @ banner @ [NL]
           @ concat (map (\<lambda>r. r @ [NL]) (sorted_list_of_set (category_relationships fs ?ced)))
           @ [NL, NL] @ banner
           @ ''# STATISTICS'' @ [NL]
           @ banner
           @ ''# Total callee->caller relationships: '' @ str_of_nat (card (category_relationships fs ?ccd)) @ [NL]
           @ ''# Total caller->callee relationships: '' @ str_of_nat (card (category_relationships fs ?ced)) @ [NL]
           @ ''# Total relationships: '' @ str_of_nat (card (category_relationships fs ?ccd) + card (category_relationships fs ?ced)) @ [NL])"
    if wf: "simple_names fs"
    unfolding master_text_sets [OF distinct_category distinct_category] keys_category [OF wf]
    by (rule refl)
  have main: "resolve fs' out = Some (File
          (''# MASTER FUNCTION RELATIONSHIP FILE'' @ [NL]
           @ ''# Generated on: '' @ basename base @ [NL, NL]
           @ banner
           @ ''# CALLEE -> CALLER RELATIONSHIPS'' @ [NL]
           @ ''# Total: '' @ str_of_nat (card (category_relationships fs ?ccd)) @ [NL]
           @ banner @ [NL]
           @ concat (map (\<lambda>r. r @ [NL]) (sorted_list_of_set (category_relationships fs ?ccd)))
           @ [NL, NL] @ banner
           @ ''# CALLER -> CALLEE RELATIONSHIPS'' @ [NL]
           @ ''# Total: '' @ str_of_nat (card (category_relationships fs ?ced)) @ [NL]
           @ banner @ [NL]
           @ concat (map (\<lambda>r. r @ [NL]) (sorted_list_of_set (category_relationships fs ?ced)))
           @ [NL, NL] @ banner
           @ ''# STATISTICS'' @ [NL]
           @ banner
           @ ''# Total callee->caller relationships: '' @ str_of_nat (card (category_relationships fs ?ccd)) @ [NL]
           @ ''# Total caller->callee relationships: '' @ str_of_nat (card (category_relationships fs ?ced)) @ [NL]
           @ ''# Total relationships: '' @ str_of_nat (card (category_relationships fs ?ccd) + card (category_relationships fs ?ced)) @ [NL]))
        \<and> finite (category_relationships fs ?ccd) \<and> finite (category_relationships fs ?ced)"
    if h: "simple_names fs \<and> generate_master_relationships_file fs base = (Inr out, fs')"
  proof -
    from h have wf: "simple_names fs"
      and s: "generate_master_relationships_file fs base = (Inr out, fs')" by simp_all
    show ?thesis
      using written [OF s] finite_category_relationships [OF wf]
      by (simp only: sets [OF wf, symmetric])
  qed
  have cat: "\<not> isdir fs d \<longrightarrow> category_relationships fs d = {}"
    "isdir fs d \<and> isfile fs (join d ''all_function_relationships.txt'') \<longrightarrow>
        category_relationships fs d
          = artifact_relationships fs (join d ''all_function_relationships.txt'')"
    "isdir fs d \<and> \<not> isfile fs (join d ''all_function_relationships.txt'') \<longrightarrow>
        category_relationships fs d
          = {r. \<exists>names file. list_all simple_name names \<and> simple_name file
                  \<and> per_file_artifact_name file
                  \<and> r \<in> artifact_relationships fs (foldl join d (names @ [file]))}"
    by (simp_all add: category_relationships_def relationships_beneath_def)
  show ?thesis
    unfolding Let_def
    using main cat by blast
qed

text \<open>With the Forward directory only, and one of its two artifacts two levels down: the
  Inverted section is empty with count 0, the Forward section holds the union of both
  artifacts, the grand total is the Forward count.\<close>

theorem master_sections_witness:
  "resolve (snd (generate_master_relationships_file scenario_d_fs ''proj''))
      ''master_function_relationships.txt''
   = Some (File
          (''# MASTER FUNCTION RELATIONSHIP FILE'' @ [NL]
           @ ''# Generated on: proj'' @ [NL, NL]
           @ banner
           @ ''# CALLEE -> CALLER RELATIONSHIPS'' @ [NL]
           @ ''# Total: 0'' @ [NL]
           @ banner @ [NL]
           @ [NL, NL] @ banner
           @ ''# CALLER -> CALLEE RELATIONSHIPS'' @ [NL]
           @ ''# Total: 3'' @ [NL]
           @ banner @ [NL]
           @ ''a -> b'' @ [NL] @ ''a -> c'' @ [NL] @ ''d -> e'' @ [NL]
           @ [NL, NL] @ banner
           @ ''# STATISTICS'' @ [NL]
           @ banner
           @ ''# Total callee->caller relationships: 0'' @ [NL]
           @ ''# Total caller->callee relationships: 3'' @ [NL]
           @ ''# Total relationships: 3'' @ [NL]))"
proof -
  have wf: "simple_names scenario_d_fs"
    by code_simp
  have run: "generate_master_relationships_file scenario_d_fs ''proj''
     = (Inr ''master_function_relationships.txt'',
        snd (generate_master_relationships_file scenario_d_fs ''proj''))"
    by code_simp
  have "(if isdir scenario_d_fs (join ''proj'' ''callee_caller_graph'')
      then (if isfile scenario_d_fs
                 (join (join ''proj'' ''callee_caller_graph'') ''all_function_relationships.txt'')
            then artifact_relationships scenario_d_fs
                 (join (join ''proj'' ''callee_caller_graph'') ''all_function_relationships.txt'')
            else relationships_under scenario_d_fs (join ''proj'' ''callee_caller_graph''))
      else {}) = {}"
    by code_simp
  then have inverted:
    "category_relationships scenario_d_fs (join ''proj'' ''callee_caller_graph'') = {}"
    by (simp only: category_relationships_walk [OF wf])
  have "(if isdir scenario_d_fs (join ''proj'' ''caller_callee_graph'')
      then (if isfile scenario_d_fs
                 (join (join ''proj'' ''caller_callee_graph'') ''all_function_relationships.txt'')
            then artifact_relationships scenario_d_fs
                 (join (join ''proj'' ''caller_callee_graph'') ''all_function_relationships.txt'')
            else relationships_under scenario_d_fs (join ''proj'' ''caller_callee_graph''))
      else {}) = {''a -> b'', ''a -> c'', ''d -> e''}"
    by code_simp
  then have forward:
    "category_relationships scenario_d_fs (join ''proj'' ''caller_callee_graph'')
      = {''a -> b'', ''a -> c'', ''d -> e''}"
    by (simp only: category_relationships_walk [OF wf])
  have vals: "card {''a -> b'', ''a -> c'', ''d -> e''} = Suc (Suc (Suc 0))"
    "sorted_list_of_set {''a -> b'', ''a -> c'', ''d -> e''} = [''a -> b'', ''a -> c'', ''d -> e'']"
    "basename ''proj'' = ''proj''"
    by code_simp+
  from master_sections [of scenario_d_fs "''proj''" "''master_function_relationships.txt''"
      "snd (generate_master_relationships_file scenario_d_fs ''proj'')",
      THEN conjunct1, THEN mp, OF conjI [OF wf run]]
  show ?thesis
    unfolding Let_def inverted forward vals by (simp add: str_of_nat_small)
qed




end
